theory Spec2Isabelle
  imports Complex_Main
begin

section \<open>The InfoDrop attack of \<open>infod_sample.py\<close>\<close>

text \<open>
  The attack perturbs the three quantization tables of a JPEG-like pipeline instead of
  the pixels. This theory embeds the class \<open>InfoDrop\<close>: its constructor and its
  \<open>forward\<close> method.

  Conventions of the embedding.
  \<^item> Python integers are \<open>int\<close>; float32 and float64 values are \<open>real\<close>: rounding,
    infinities and NaN are not modelled, except where the source divides by the batch
    size (see \<open>suc_rate_ge_1\<close>).
  \<^item> A tensor is its shape with its elements in row-major order.
  \<^item> Every \<open>raise\<close> the method can reach through its own statements is a value
    \<open>Inl e\<close>.
  \<^item> \<open>compression.py\<close>, \<open>decompression.py\<close> and \<open>utils.py\<close> are not part of the
    sources at hand, and neither is the classifier nor the automatic differentiation:
    they are parameters of the model (record \<open>env\<close>), taken as total functions without
    side effects.
  \<^item> Device moves (\<open>.to(self.device)\<close>), \<open>.detach()\<close>, \<open>requires_grad\<close> and the
    \<open>print\<close> statements do not change any value and are left out.
\<close>

subsection \<open>Tensors and the library operations the method calls\<close>

record tensor =
  shape :: "nat list"
  elems :: "real list"

datatype error =
  ZeroDivisionError | ValueError | IndexError | RuntimeError | UnboundLocalError | TypeError

text \<open>The keys \<open>'y'\<close>, \<open>'cb'\<close>, \<open>'cr'\<close> of the dictionaries, in insertion order.\<close>

datatype mark = Y | Cb | Cr

fun mark_index :: "mark \<Rightarrow> nat" where
  "mark_index Y = 0"
| "mark_index Cb = 1"
| "mark_index Cr = 2"

text \<open>\<open>np.empty(shp)\<close> followed by \<open>fill(v)\<close>, then \<open>torch.from_numpy\<close>.\<close>

definition np_full :: "nat list \<Rightarrow> real \<Rightarrow> tensor" where
  "np_full shp v = \<lparr>shape = shp, elems = replicate (prod_list shp) v\<rparr>"

text \<open>\<open>torch.clamp(x, lo, hi)\<close> is \<open>min(max(x, lo), hi)\<close> on every element.\<close>

definition clamp :: "real \<Rightarrow> real \<Rightarrow> real \<Rightarrow> real" where
  "clamp x lo hi = min (max x lo) hi"

definition torch_clamp :: "tensor \<Rightarrow> real \<Rightarrow> real \<Rightarrow> tensor" where
  "torch_clamp t lo hi = t\<lparr>elems := map (\<lambda>x. clamp x lo hi) (elems t)\<rparr>"

definition torch_sign :: "tensor \<Rightarrow> tensor" where
  "torch_sign t = t\<lparr>elems := map sgn (elems t)\<rparr>"

definition torch_neg :: "tensor \<Rightarrow> tensor" where
  "torch_neg t = t\<lparr>elems := map uminus (elems t)\<rparr>"

text \<open>
  Elementwise \<open>a - b\<close> for two tensors of one shape (a gradient has the shape of its
  tensor).
\<close>

definition torch_sub :: "tensor \<Rightarrow> tensor \<Rightarrow> tensor" where
  "torch_sub a b = a\<lparr>elems := map2 (-) (elems a) (elems b)\<rparr>"

text \<open>
  \<open>images.permute(0, 2, 3, 1)[:, :, :, j]\<close> on a batch of shape \<open>(N, C, H, W)\<close>: plane
  \<open>j\<close> of every image, of shape \<open>(N, H, W)\<close>.
\<close>

definition channel :: "nat \<Rightarrow> tensor \<Rightarrow> tensor" where
  "channel j t =
     (case shape t of
        [n, c, h, w] \<Rightarrow>
          \<lparr>shape = [n, h, w],
           elems = concat (map (\<lambda>i. take (h * w) (drop ((i * c + j) * (h * w)) (elems t))) [0..<n])\<rparr>
      | _ \<Rightarrow> t)"

text \<open>
  Lines 80-81. \<open>permute\<close> with four axes raises on a tensor that is not 4-dimensional;
  the index \<open>j\<close> on the last axis raises when the batch has fewer than \<open>j + 1\<close>
  channels. Channels beyond the third are ignored.
\<close>

definition components :: "tensor \<Rightarrow> error + (mark \<Rightarrow> tensor)" where
  "components images =
     (case shape images of
        [n, c, h, w] \<Rightarrow>
          if c < 3 then Inl IndexError
          else Inr (\<lambda>k. channel (mark_index k) images)
      | _ \<Rightarrow> Inl RuntimeError)"

text \<open>
  Lines 96-98: \<open>torch.cat\<close> of the three planes, each with a new last axis, then
  \<open>permute(0, 3, 1, 2)\<close>: three planes of shape \<open>(N, H, W)\<close> become a batch of shape
  \<open>(N, 3, H, W)\<close>. \<open>unsqueeze(3)\<close> raises below three dimensions; \<open>cat\<close> raises on
  different shapes and \<open>permute\<close> with four axes on more than four dimensions.
\<close>

definition plane_of :: "nat \<Rightarrow> tensor \<Rightarrow> real list" where
  "plane_of i t =
     (let hw = prod_list (tl (shape t)) in take hw (drop (i * hw) (elems t)))"

definition cat_channels :: "tensor \<Rightarrow> tensor \<Rightarrow> tensor \<Rightarrow> error + tensor" where
  "cat_channels ty tcb tcr =
     (if length (shape ty) < 3 \<or> length (shape tcb) < 3 \<or> length (shape tcr) < 3
      then Inl IndexError
      else if length (shape ty) \<noteq> 3 \<or> shape tcb \<noteq> shape ty \<or> shape tcr \<noteq> shape ty
      then Inl RuntimeError
      else Inr \<lparr>shape = [shape ty ! 0, 3, shape ty ! 1, shape ty ! 2],
                elems = concat (map (\<lambda>i. plane_of i ty @ plane_of i tcb @ plane_of i tcr)
                                 [0..<shape ty ! 0])\<rparr>)"

text \<open>
  \<open>torch.max(outputs, 1)\<close>: for every row of logits the index of its largest entry (the
  first one among equals). It raises on rows without entries.
\<close>

fun argmax_from :: "nat \<Rightarrow> real \<Rightarrow> nat \<Rightarrow> real list \<Rightarrow> nat" where
  "argmax_from best m i [] = best"
| "argmax_from best m i (x # xs) =
     (if m < x then argmax_from i x (Suc i) xs else argmax_from best m (Suc i) xs)"

definition argmax :: "real list \<Rightarrow> nat" where
  "argmax xs = (case xs of [] \<Rightarrow> 0 | x # r \<Rightarrow> argmax_from 0 x 1 r)"

definition torch_max_indices :: "real list list \<Rightarrow> error + int list" where
  "torch_max_indices outputs =
     (if [] \<in> set outputs then Inl IndexError
      else Inr (map (\<lambda>row. int (argmax row)) outputs))"

text \<open>
  \<open>nn.CrossEntropyLoss()(outputs, labels)\<close> with class indices as targets raises when the
  numbers of rows and of labels differ, and when a label other than the ignored index
  \<open>-100\<close> is not a class of the classifier. The value of the loss is only printed and
  differentiated; its gradient is a parameter.
\<close>

definition adv_loss_raises :: "real list list \<Rightarrow> int list \<Rightarrow> error option" where
  "adv_loss_raises outputs labels =
     (if length outputs \<noteq> length labels then Some ValueError
      else if \<exists>(row, l) \<in> set (zip outputs labels).
                l \<noteq> - 100 \<and> \<not> (0 \<le> l \<and> l < int (length row))
      then Some IndexError
      else None)"

subsection \<open>The attack object and its constructor\<close>

text \<open>
  The attributes that hold plain Python values, and the three that hold tensors: by value
  in \<open>attack\<close>, which the value-level semantics below works on.
\<close>

record config =
  steps :: int
  targeted :: bool
  batch_size :: int
  height :: int
  width :: int
  factor_range :: "real \<times> real"
  alpha_range :: "real \<times> real"

record attack = config +
  alpha :: real
  alpha_interval :: real
  q_tables :: "mark \<Rightarrow> tensor"

text \<open>
  Line 54: \<open>block_n = np.ceil(height / block_size) * np.ceil(height / block_size)\<close>. Both
  factors are computed from \<open>height\<close>; \<open>width\<close> does not occur.
\<close>

definition block_n :: "int \<Rightarrow> int \<Rightarrow> int" where
  "block_n h bs = \<lceil>real_of_int h / real_of_int bs\<rceil> * \<lceil>real_of_int h / real_of_int bs\<rceil>"

text \<open>
  \<open>InfoDrop.__init__(model, height, width, steps, batch_size, block_size, q_size,
  targeted)\<close>. The two divisions raise \<open>ZeroDivisionError\<close> (line 53 by \<open>steps\<close>, line 54
  by \<open>block_size\<close>); \<open>np.empty\<close> raises \<open>ValueError\<close> on a negative dimension (\<open>block_n\<close>
  is a square and never negative). Nothing else is checked.
\<close>

definition InfoDrop_init ::
  "int \<Rightarrow> int \<Rightarrow> int \<Rightarrow> int \<Rightarrow> int \<Rightarrow> real \<Rightarrow> bool \<Rightarrow> error + attack" where
  "InfoDrop_init h w st b bs q_size tg =
     (if st = 0 then Inl ZeroDivisionError
      else if bs = 0 then Inl ZeroDivisionError
      else if b < 0 \<or> bs < 0 then Inl ValueError
      else Inr \<lparr>steps = st, targeted = tg, batch_size = b, height = h, width = w,
                factor_range = (5, q_size),
                alpha_range = (1 / 10, 1 / 10 ^ 20),
                alpha = 1 / 10,
                alpha_interval = (1 / 10 ^ 20 - 1 / 10) / real_of_int st,
                q_tables = (\<lambda>k. np_full [nat b, nat (block_n h bs), nat bs, nat bs] q_size)\<rparr>)"

subsection \<open>The collaborators\<close>

text \<open>
  The functions of \<open>compression.py\<close>, \<open>decompression.py\<close> and \<open>utils.py\<close> that \<open>forward\<close>
  calls, the classifier \<open>self.model\<close>, and \<open>grad_adv_loss\<close>: the gradient of
  \<open>adv_loss(outputs, labels)\<close> with respect to the quantization table of a component, as
  \<open>backward()\<close> leaves it in \<open>.grad\<close>. It is a function of what the loss is computed
  from: the tables, alpha, the three component planes and the labels.
\<close>

record env =
  block_splitting :: "tensor \<Rightarrow> tensor"
  dct_8x8 :: "tensor \<Rightarrow> tensor"
  quantize :: "tensor \<Rightarrow> tensor \<Rightarrow> real \<Rightarrow> tensor"
  dequantize :: "tensor \<Rightarrow> tensor \<Rightarrow> tensor"
  idct_8x8 :: "tensor \<Rightarrow> tensor"
  block_merging :: "tensor \<Rightarrow> int \<Rightarrow> int \<Rightarrow> tensor"
  model :: "tensor \<Rightarrow> real list list"
  grad_adv_loss :: "(mark \<Rightarrow> tensor) \<Rightarrow> real \<Rightarrow> (mark \<Rightarrow> tensor) \<Rightarrow> int list \<Rightarrow> mark \<Rightarrow> tensor"

subsection \<open>One step of the loop\<close>

text \<open>Lines 88-93: one component through the pipeline.\<close>

definition upresult :: "env \<Rightarrow> attack \<Rightarrow> (mark \<Rightarrow> tensor) \<Rightarrow> mark \<Rightarrow> tensor" where
  "upresult e a comps k =
     (let comp = block_splitting e (comps k);
          comp = dct_8x8 e comp;
          comp = quantize e comp (q_tables a k) (alpha a);
          comp = dequantize e comp (q_tables a k);
          comp = idct_8x8 e comp
      in block_merging e comp (height a) (width a))"

text \<open>Lines 86-98: the reconstructed batch \<open>rgb_images\<close>.\<close>

definition rgb_images :: "env \<Rightarrow> attack \<Rightarrow> (mark \<Rightarrow> tensor) \<Rightarrow> error + tensor" where
  "rgb_images e a comps =
     cat_channels (upresult e a comps Y) (upresult e a comps Cb) (upresult e a comps Cr)"

text \<open>
  Lines 101-104 and 123: the test \<open>suc_rate >= 1\<close>, where \<open>suc_rate\<close> is the number of
  images counted divided by \<open>self.batch_size\<close>. The comparison \<open>pre == labels\<close> is made
  on two tensors of one length (the step has raised otherwise). A tensor divided by
  zero is infinite for a positive count and NaN for the count 0, and NaN compares false.
\<close>

definition hits :: "bool \<Rightarrow> int list \<Rightarrow> int list \<Rightarrow> nat" where
  "hits tg pre labels =
     (if tg then length (filter (\<lambda>(p, l). p = l) (zip pre labels))
      else length (filter (\<lambda>(p, l). p \<noteq> l) (zip pre labels)))"

definition suc_rate_ge_1 :: "nat \<Rightarrow> int \<Rightarrow> bool" where
  "suc_rate_ge_1 cnt b = (if b = 0 then 0 < cnt else 1 \<le> real cnt / real_of_int b)"

text \<open>
  Lines 106-113: \<open>total_cost\<close> is the loss for a targeted attack and its negation
  otherwise, so its gradient is the gradient of the loss, negated for an untargeted
  attack.
\<close>

definition total_cost_grad :: "env \<Rightarrow> attack \<Rightarrow> (mark \<Rightarrow> tensor) \<Rightarrow> int list \<Rightarrow> mark \<Rightarrow> tensor" where
  "total_cost_grad e a comps labels k =
     (let g = grad_adv_loss e (q_tables a) (alpha a) comps labels k
      in if targeted a then g else torch_neg g)"

text \<open>Lines 119-120, for one table \<open>q\<close> with gradient \<open>g\<close>.\<close>

definition update_table :: "real \<times> real \<Rightarrow> tensor \<Rightarrow> tensor \<Rightarrow> tensor" where
  "update_table fr q g = torch_clamp (torch_sub q (torch_sign g)) (fst fr) (snd fr)"

text \<open>
  Lines 115-120: what a step that does not raise changes in the object. The gradients
  were computed by \<open>backward()\<close> on line 113, before alpha is incremented.
\<close>

definition update :: "env \<Rightarrow> (mark \<Rightarrow> tensor) \<Rightarrow> int list \<Rightarrow> attack \<Rightarrow> attack" where
  "update e comps labels a =
     a\<lparr>alpha := alpha a + alpha_interval a,
       q_tables := (\<lambda>k. update_table (factor_range a) (q_tables a k)
                          (total_cost_grad e a comps labels k))\<rparr>"

text \<open>
  Lines 86-106: what a step computes before it changes anything: the reconstructed
  batch, the predictions and whether \<open>suc_rate >= 1\<close>. \<open>pre == labels\<close> raises on two
  lengths that do not broadcast; the loss raises on the others that differ.
\<close>

definition observe ::
  "env \<Rightarrow> (mark \<Rightarrow> tensor) \<Rightarrow> int list \<Rightarrow> attack \<Rightarrow> error + (tensor \<times> int list \<times> bool)" where
  "observe e comps labels a =
     (case rgb_images e a comps of
        Inl er \<Rightarrow> Inl er
      | Inr rgb \<Rightarrow>
          (case torch_max_indices (model e rgb) of
             Inl er \<Rightarrow> Inl er
           | Inr pre \<Rightarrow>
               if length pre \<noteq> length labels \<and> length pre \<noteq> 1 \<and> length labels \<noteq> 1
               then Inl RuntimeError
               else (case adv_loss_raises (model e rgb) labels of
                       Some er \<Rightarrow> Inl er
                     | None \<Rightarrow>
                         Inr (rgb, pre,
                              suc_rate_ge_1 (hits (targeted a) pre labels) (batch_size a)))))"

text \<open>
  The body of the loop, lines 83-123: the reconstructed batch, the predictions, whether
  \<open>suc_rate >= 1\<close>, and the updated object. Nothing is updated in a step that raises.
\<close>

definition step ::
  "env \<Rightarrow> (mark \<Rightarrow> tensor) \<Rightarrow> int list \<Rightarrow> attack \<Rightarrow> error + (tensor \<times> int list \<times> bool \<times> attack)" where
  "step e comps labels a =
     (case observe e comps labels a of
        Inl er \<Rightarrow> Inl er
      | Inr (rgb, pre, suc) \<Rightarrow> Inr (rgb, pre, suc, update e comps labels a))"

subsection \<open>The method \<open>forward\<close>\<close>

text \<open>
  \<open>for i in range(self.steps)\<close>, with \<open>i\<close> the current index, \<open>n\<close> the number of
  iterations left and \<open>prev\<close> the values of \<open>rgb_images\<close> and \<open>pre\<close> of the previous
  iteration (unbound before the first one). The result is the returned triple and the
  object as the call leaves it.
\<close>

fun for_range ::
  "env \<Rightarrow> (mark \<Rightarrow> tensor) \<Rightarrow> int list \<Rightarrow> nat \<Rightarrow> nat \<Rightarrow> attack \<Rightarrow> (tensor \<times> int list) option
     \<Rightarrow> error + ((tensor \<times> int list \<times> nat option) \<times> attack)" where
  "for_range e comps labels i 0 a prev =
     (case prev of
        None \<Rightarrow> Inl UnboundLocalError
      | Some (rgb, pre) \<Rightarrow> Inr ((torch_clamp rgb 0 255, pre, None), a))"
| "for_range e comps labels i (Suc n) a prev =
     (case step e comps labels a of
        Inl er \<Rightarrow> Inl er
      | Inr (rgb, pre, suc, a') \<Rightarrow>
          if suc then Inr ((torch_clamp rgb 0 255, pre, Some i), a')
          else for_range e comps labels (Suc i) n a' (Some (rgb, pre)))"

definition forward ::
  "env \<Rightarrow> attack \<Rightarrow> tensor \<Rightarrow> int list \<Rightarrow> error + ((tensor \<times> int list \<times> nat option) \<times> attack)" where
  "forward e a images labels =
     (case components images of
        Inl er \<Rightarrow> Inl er
      | Inr comps \<Rightarrow> for_range e comps labels 0 (nat (steps a)) a None)"

subsection \<open>Notions the statements below use\<close>

text \<open>The object after \<open>k\<close> steps that did not raise.\<close>

definition state_after :: "env \<Rightarrow> (mark \<Rightarrow> tensor) \<Rightarrow> int list \<Rightarrow> attack \<Rightarrow> nat \<Rightarrow> attack" where
  "state_after e comps labels a k = (update e comps labels ^^ k) a"

text \<open>
  What the test \<open>suc_rate >= 1\<close> of a step gives (\<open>None\<close> when the step raises), and the
  predictions of a step.
\<close>

definition outcome :: "env \<Rightarrow> (mark \<Rightarrow> tensor) \<Rightarrow> int list \<Rightarrow> attack \<Rightarrow> bool option" where
  "outcome e comps labels a =
     (case step e comps labels a of Inl er \<Rightarrow> None | Inr (rgb, pre, suc, a') \<Rightarrow> Some suc)"




section \<open>Tensors as objects: who shares what\<close>

text \<open>
  The value-level semantics above cannot tell a tensor that is changed in place from one
  that is replaced. Here every tensor lives in a store, at a reference that stands for
  its memory: a view (\<open>detach\<close>, \<open>permute\<close>, an index) has the reference of its base,
  \<open>clone\<close> and every arithmetic operation allocate, and an in-place operation overwrites.
  The store is a list and a reference an index into it, so that allocation appends.
\<close>

type_synonym ref = nat

datatype obj = FloatTensor tensor | LongTensor "int list"

type_synonym store = "obj list"

definition alloc :: "obj \<Rightarrow> store \<Rightarrow> ref \<times> store" where
  "alloc v s = (length s, s @ [v])"

text \<open>
  Reading a tensor of the expected kind. The failure cannot arise for an object the
  constructor made and arguments of the documented kinds; it stands for whatever the
  library raises on a tensor of the wrong kind.
\<close>

definition get_float :: "store \<Rightarrow> ref \<Rightarrow> error + tensor" where
  "get_float s r =
     (if r < length s
      then (case s ! r of FloatTensor t \<Rightarrow> Inr t | LongTensor l \<Rightarrow> Inl TypeError)
      else Inl TypeError)"

definition get_long :: "store \<Rightarrow> ref \<Rightarrow> error + int list" where
  "get_long s r =
     (if r < length s
      then (case s ! r of LongTensor l \<Rightarrow> Inr l | FloatTensor t \<Rightarrow> Inl TypeError)
      else Inl TypeError)"

text \<open>\<open>torch.tensor(v)\<close> for a number \<open>v\<close>: a tensor without axes.\<close>

definition scalar :: "real \<Rightarrow> tensor" where
  "scalar v = \<lparr>shape = [], elems = [v]\<rparr>"

definition get_scalar :: "store \<Rightarrow> ref \<Rightarrow> error + real" where
  "get_scalar s r =
     (case get_float s r of
        Inl er \<Rightarrow> Inl er
      | Inr t \<Rightarrow> (case elems t of
                    [v] \<Rightarrow> if shape t = [] then Inr v else Inl TypeError
                  | _ \<Rightarrow> Inl TypeError))"

text \<open>Sequencing of statements that may raise.\<close>

definition bind :: "error + 'a \<Rightarrow> ('a \<Rightarrow> error + 'b) \<Rightarrow> error + 'b" where
  "bind m f = (case m of Inl er \<Rightarrow> Inl er | Inr x \<Rightarrow> f x)"

text \<open>The attack object with its tensor attributes by reference.\<close>

record attack_obj = config +
  alpha_ref :: ref
  alpha_interval_ref :: ref
  q_table_refs :: "mark \<Rightarrow> ref"

text \<open>
  The constructor. Line 52 and line 53 make a tensor each. Line 55 makes one array, and
  the loop of lines 63-65 fills that same array three times and wraps it three times with
  \<open>torch.from_numpy\<close>, which shares the memory of the array: the three tables of a new
  object are one piece of memory.
\<close>

definition InfoDrop_init_obj ::
  "int \<Rightarrow> int \<Rightarrow> int \<Rightarrow> int \<Rightarrow> int \<Rightarrow> real \<Rightarrow> bool \<Rightarrow> store \<Rightarrow> error + (attack_obj \<times> store)" where
  "InfoDrop_init_obj h w st b bs q_size tg s =
     (if st = 0 then Inl ZeroDivisionError
      else if bs = 0 then Inl ZeroDivisionError
      else if b < 0 \<or> bs < 0 then Inl ValueError
      else
        let (ar, s1) = alloc (FloatTensor (scalar (1 / 10))) s;
            (ir, s2) = alloc (FloatTensor (scalar ((1 / 10 ^ 20 - 1 / 10) / real_of_int st))) s1;
            (tr, s3) = alloc (FloatTensor (np_full [nat b, nat (block_n h bs), nat bs, nat bs] q_size)) s2
        in Inr (\<lparr>steps = st, targeted = tg, batch_size = b, height = h, width = w,
                  factor_range = (5, q_size),
                  alpha_range = (1 / 10, 1 / 10 ^ 20),
                  alpha_ref = ar, alpha_interval_ref = ir,
                  q_table_refs = (\<lambda>k. tr)\<rparr>, s3))"

text \<open>The values the attributes of the object have in a store.\<close>

definition load :: "store \<Rightarrow> attack_obj \<Rightarrow> error + attack" where
  "load s ob =
     bind (get_scalar s (alpha_ref ob)) (\<lambda>al.
     bind (get_scalar s (alpha_interval_ref ob)) (\<lambda>iv.
     bind (get_float s (q_table_refs ob Y)) (\<lambda>ty.
     bind (get_float s (q_table_refs ob Cb)) (\<lambda>tcb.
     bind (get_float s (q_table_refs ob Cr)) (\<lambda>tcr.
       Inr \<lparr>steps = steps ob, targeted = targeted ob, batch_size = batch_size ob,
            height = height ob, width = width ob, factor_range = factor_range ob,
            alpha_range = alpha_range ob,
            alpha = al, alpha_interval = iv,
            q_tables = (\<lambda>k. case k of Y \<Rightarrow> ty | Cb \<Rightarrow> tcb | Cr \<Rightarrow> tcr)\<rparr>)))))"

text \<open>
  Lines 119-120 for the key \<open>k\<close>: the table is read where it lies now, the result of the
  arithmetic is a new tensor, and the dictionary entry is bound to it.
\<close>

definition rebind_table ::
  "(mark \<Rightarrow> tensor) \<Rightarrow> mark \<Rightarrow> attack_obj \<times> store \<Rightarrow> error + (attack_obj \<times> store)" where
  "rebind_table grad k = (\<lambda>(ob, s).
     bind (get_float s (q_table_refs ob k)) (\<lambda>q.
       let (r, s') = alloc (FloatTensor (update_table (factor_range ob) q (grad k))) s
       in Inr (ob\<lparr>q_table_refs := (q_table_refs ob)(k := r)\<rparr>, s')))"

text \<open>
  The body of the loop on objects. \<open>rgb_images\<close> and \<open>pre\<close> are new tensors of the
  iteration; line 115 adds to the alpha tensor in place; the tables are rebound in the
  order of the keys. The gradients are those \<open>backward()\<close> computed on line 113.
\<close>

definition step_obj ::
  "env \<Rightarrow> (mark \<Rightarrow> tensor) \<Rightarrow> int list \<Rightarrow> store \<Rightarrow> attack_obj
     \<Rightarrow> error + (ref \<times> ref \<times> bool \<times> attack_obj \<times> store)" where
  "step_obj e comps labels s ob =
     bind (load s ob) (\<lambda>a.
     bind (observe e comps labels a) (\<lambda>(rgb, pre, suc).
       let (rgb_r, s1) = alloc (FloatTensor rgb) s;
           (pre_r, s2) = alloc (LongTensor pre) s1;
           grad = total_cost_grad e a comps labels;
           s3 = s2[alpha_ref ob := FloatTensor (scalar (alpha a + alpha_interval a))]
       in bind (rebind_table grad Y (ob, s3)) (\<lambda>obs.
          bind (rebind_table grad Cb obs) (\<lambda>obs.
          bind (rebind_table grad Cr obs) (\<lambda>(ob', s').
            Inr (rgb_r, pre_r, suc, ob', s'))))))"

text \<open>
  Lines 125-126 and 127-129: the clamped batch is a new tensor; \<open>pre\<close> is returned as it
  is. From here on a result that is an error comes with the object and the store as the
  \<open>raise\<close> leaves them, since a caller that catches it goes on with these.
\<close>

type_synonym 'a outcome_obj = "(error \<times> attack_obj \<times> store) + ('a \<times> attack_obj \<times> store)"

definition return_obj ::
  "ref \<Rightarrow> ref \<Rightarrow> nat option \<Rightarrow> attack_obj \<Rightarrow> store \<Rightarrow> (ref \<times> ref \<times> nat option) outcome_obj" where
  "return_obj rgb_r pre_r st ob s =
     (case get_float s rgb_r of
        Inl er \<Rightarrow> Inl (er, ob, s)
      | Inr rgb \<Rightarrow>
          let (q_r, s') = alloc (FloatTensor (torch_clamp rgb 0 255)) s
          in Inr ((q_r, pre_r, st), ob, s'))"

text \<open>
  The loop. A step that raises does so before line 115, so it leaves the object and the
  store as it found them.
\<close>

fun for_range_obj ::
  "env \<Rightarrow> (mark \<Rightarrow> tensor) \<Rightarrow> int list \<Rightarrow> nat \<Rightarrow> nat \<Rightarrow> store \<Rightarrow> attack_obj \<Rightarrow> (ref \<times> ref) option
     \<Rightarrow> (ref \<times> ref \<times> nat option) outcome_obj" where
  "for_range_obj e comps labels i 0 s ob prev =
     (case prev of
        None \<Rightarrow> Inl (UnboundLocalError, ob, s)
      | Some (rgb_r, pre_r) \<Rightarrow> return_obj rgb_r pre_r None ob s)"
| "for_range_obj e comps labels i (Suc n) s ob prev =
     (case step_obj e comps labels s ob of
        Inl er \<Rightarrow> Inl (er, ob, s)
      | Inr (rgb_r, pre_r, suc, ob', s') \<Rightarrow>
          if suc then return_obj rgb_r pre_r (Some i) ob' s'
          else for_range_obj e comps labels (Suc i) n s' ob' (Some (rgb_r, pre_r)))"

text \<open>
  \<open>forward\<close> on objects. Lines 75-76 clone the two arguments, and from there on
  \<open>images\<close> and \<open>labels\<close> are the clones; the planes of line 81 are views of the clone of
  the images, which no statement writes.
\<close>

definition forward_obj ::
  "env \<Rightarrow> store \<Rightarrow> attack_obj \<Rightarrow> ref \<Rightarrow> ref \<Rightarrow> (ref \<times> ref \<times> nat option) outcome_obj" where
  "forward_obj e s ob images_r labels_r =
     (case get_float s images_r of
        Inl er \<Rightarrow> Inl (er, ob, s)
      | Inr images \<Rightarrow>
          (case get_long s labels_r of
             Inl er \<Rightarrow> Inl (er, ob, s)
           | Inr labels \<Rightarrow>
               let (images_c, s1) = alloc (FloatTensor images) s;
                   (labels_c, s2) = alloc (LongTensor labels) s1
               in (case components images of
                     Inl er \<Rightarrow> Inl (er, ob, s2)
                   | Inr comps \<Rightarrow> for_range_obj e comps labels 0 (nat (steps ob)) s2 ob None)))"

text \<open>The object and the store a call leaves, whether it returned or raised.\<close>

definition final_state :: "'a outcome_obj \<Rightarrow> attack_obj \<times> store" where
  "final_state r = (case r of Inl (er, ob, s) \<Rightarrow> (ob, s) | Inr (x, ob, s) \<Rightarrow> (ob, s))"

text \<open>
  What a call may have done to a store \<open>s\<close>, having arrived at \<open>s'\<close>: nothing but
  allocate, and overwrite the tensor at \<open>ar\<close>.
\<close>

definition frame :: "ref \<Rightarrow> store \<Rightarrow> store \<Rightarrow> bool" where
  "frame ar s s' \<longleftrightarrow> length s \<le> length s' \<and> (\<forall>r<length s. r \<noteq> ar \<longrightarrow> s' ! r = s ! r)"

text \<open>
  The tensors of the object do not share memory with alpha. The constructor makes them
  so, and \<open>forward\<close> keeps them so.
\<close>

definition alpha_apart :: "attack_obj \<Rightarrow> bool" where
  "alpha_apart ob \<longleftrightarrow>
     alpha_interval_ref ob \<noteq> alpha_ref ob \<and>
     q_table_refs ob Y \<noteq> alpha_ref ob \<and> q_table_refs ob Cb \<noteq> alpha_ref ob \<and>
     q_table_refs ob Cr \<noteq> alpha_ref ob"

section \<open>A small instance\<close>

text \<open>
  One image of one pixel, tables of one entry, and collaborators simple enough to run by
  hand: quantization adds the table to the plane, the other stages of the pipeline
  return their argument, the classifier has two classes and answers 1 when the third
  channel is at most 16, and the gradient of the loss is 3 everywhere.
\<close>

definition toy_env :: env where
  "toy_env =
     \<lparr>block_splitting = (\<lambda>c. c),
      dct_8x8 = (\<lambda>c. c),
      quantize = (\<lambda>c t al. c\<lparr>elems := map2 (+) (elems c) (elems t)\<rparr>),
      dequantize = (\<lambda>c t. c),
      idct_8x8 = (\<lambda>c. c),
      block_merging = (\<lambda>c h w. c),
      model = (\<lambda>x. [[0, if elems x ! 2 \<le> 16 then 1 else - 1]]),
      grad_adv_loss = (\<lambda>tabs al comps labels k. \<lparr>shape = [1, 1, 1, 1], elems = [3]\<rparr>)\<rparr>"

text \<open>The same with a classifier that answers 1 whatever it is given.\<close>

definition sure_env :: env where
  "sure_env = toy_env\<lparr>model := (\<lambda>x. [[0, 1]])\<rparr>"

definition toy_images :: tensor where
  "toy_images = \<lparr>shape = [1, 3, 1, 1], elems = [300, - 5, 7]\<rparr>"

definition toy_comps :: "mark \<Rightarrow> tensor" where
  "toy_comps k = \<lparr>shape = [1, 1, 1], elems = [[300, - 5, 7] ! mark_index k]\<rparr>"

text \<open>What \<open>InfoDrop(model, height=1, width=1, steps=st, batch_size=1, block_size=1)\<close> builds.\<close>

definition toy_attack :: "int \<Rightarrow> bool \<Rightarrow> attack" where
  "toy_attack st tg =
     \<lparr>steps = st, targeted = tg, batch_size = 1, height = 1, width = 1,
      factor_range = (5, 10), alpha_range = (1 / 10, 1 / 10 ^ 20), alpha = 1 / 10,
      alpha_interval = (1 / 10 ^ 20 - 1 / 10) / real_of_int st,
      q_tables = (\<lambda>k. \<lparr>shape = [1, 1, 1, 1], elems = [10]\<rparr>)\<rparr>"

text \<open>
  The caller's store: the batch at reference 0 and the labels at reference 1. The
  constructor adds alpha at 2, its increment at 3 and the memory of the tables at 4.
\<close>

definition toy_store :: "int list \<Rightarrow> store" where
  "toy_store labels = [FloatTensor toy_images, LongTensor labels]"

definition toy_store_init :: store where
  "toy_store_init = toy_store [1] @
     [FloatTensor (scalar (1 / 10)), FloatTensor (scalar ((1 / 10 ^ 20 - 1 / 10) / 2)),
      FloatTensor \<lparr>shape = [1, 1, 1, 1], elems = [10]\<rparr>]"

definition toy_obj :: attack_obj where
  "toy_obj = \<lparr>steps = 2, targeted = True, batch_size = 1, height = 1, width = 1,
      factor_range = (5, 10), alpha_range = (1 / 10, 1 / 10 ^ 20),
      alpha_ref = 2, alpha_interval_ref = 3, q_table_refs = (\<lambda>k. 4)\<rparr>"

section \<open>Properties of the value-level semantics\<close>

subsection \<open>The loop\<close>

text \<open>
  A step changes the object by \<open>update\<close> and nothing else, so the object after \<open>k\<close>
  steps is \<open>state_after \<dots> k\<close>. The four lemmas on \<open>for_range\<close> say what each of its
  results means: a step index, the sentinel, an error, and when it returns at all.
\<close>

lemma step_update:
  "step e comps labels a = Inr (rgb, pre, suc, a') \<Longrightarrow> a' = update e comps labels a"
  by (auto simp: step_def split: sum.splits)

lemma state_after_0 [simp]: "state_after e comps labels a 0 = a"
  by (simp add: state_after_def)

lemma state_after_Suc:
  "state_after e comps labels a (Suc k) = state_after e comps labels (update e comps labels a) k"
  by (simp add: state_after_def funpow_swap1)

lemma state_after_Suc':
  "state_after e comps labels a (Suc k) = update e comps labels (state_after e comps labels a k)"
  by (simp add: state_after_def)


lemma step_Inr_iff:
  "step e comps labels a = Inr (rgb, pre, suc, a') \<longleftrightarrow>
     rgb_images e a comps = Inr rgb \<and> torch_max_indices (model e rgb) = Inr pre \<and>
     length pre = length labels \<and> adv_loss_raises (model e rgb) labels = None \<and>
     suc = suc_rate_ge_1 (hits (targeted a) pre labels) (batch_size a) \<and>
     a' = update e comps labels a"
  by (auto simp: step_def observe_def adv_loss_raises_def torch_max_indices_def
      split: sum.splits option.splits if_splits)

lemma update_fields [simp]:
  "steps (update e comps labels a) = steps a"
  "targeted (update e comps labels a) = targeted a"
  "batch_size (update e comps labels a) = batch_size a"
  "height (update e comps labels a) = height a"
  "width (update e comps labels a) = width a"
  "factor_range (update e comps labels a) = factor_range a"
  "alpha_range (update e comps labels a) = alpha_range a"
  "alpha_interval (update e comps labels a) = alpha_interval a"
  "alpha (update e comps labels a) = alpha a + alpha_interval a"
  by (simp_all add: update_def)

lemma state_after_fields [simp]:
  "steps (state_after e comps labels a k) = steps a"
  "targeted (state_after e comps labels a k) = targeted a"
  "batch_size (state_after e comps labels a k) = batch_size a"
  "height (state_after e comps labels a k) = height a"
  "width (state_after e comps labels a k) = width a"
  "factor_range (state_after e comps labels a k) = factor_range a"
  "alpha_range (state_after e comps labels a k) = alpha_range a"
  "alpha_interval (state_after e comps labels a k) = alpha_interval a"
  by (induction k) (simp_all add: state_after_Suc')

lemma alpha_state_after:
  "alpha (state_after e comps labels a k) = alpha a + real k * alpha_interval a"
  by (induction k) (simp_all add: state_after_Suc' algebra_simps)

lemma outcome_shift:
  assumes "outcome e comps labels a = Some False"
    and "\<forall>m<d. outcome e comps labels (state_after e comps labels (update e comps labels a) m) = Some False"
  shows "\<forall>m<Suc d. outcome e comps labels (state_after e comps labels a m) = Some False"
proof (intro allI impI)
  fix m assume "m < Suc d"
  then show "outcome e comps labels (state_after e comps labels a m) = Some False"
    using assms by (cases m) (auto simp: state_after_Suc)
qed

lemma for_range_Some:
  "for_range e comps labels i n a prev = Inr ((q, pre, Some j), a') \<Longrightarrow>
   \<exists>d rgb. j = i + d \<and> d < n \<and>
     step e comps labels (state_after e comps labels a d) = Inr (rgb, pre, True, a') \<and>
     q = torch_clamp rgb 0 255 \<and>
     (\<forall>m<d. outcome e comps labels (state_after e comps labels a m) = Some False)"
proof (induction n arbitrary: i a prev)
  case 0
  then show ?case by (auto split: option.splits prod.splits)
next
  case (Suc n)
  show ?case
  proof (cases "step e comps labels a")
    case (Inl er)
    with Suc.prems show ?thesis by simp
  next
    case (Inr r)
    obtain rgb p suc b where r: "r = (rgb, p, suc, b)" by (cases r) auto
    have b: "b = update e comps labels a" using Inr r step_update by blast
    show ?thesis
    proof (cases suc)
      case True
      with Suc.prems Inr r have "j = i" "a' = b" "pre = p" "q = torch_clamp rgb 0 255" by auto
      with Inr r True show ?thesis by (intro exI[of _ 0] exI[of _ rgb]) auto
    next
      case False
      with Suc.prems Inr r have "for_range e comps labels (Suc i) n b (Some (rgb, p)) = Inr ((q, pre, Some j), a')"
        by simp
      from Suc.IH[OF this] obtain d rgb' where d: "j = Suc i + d" "d < n"
        "step e comps labels (state_after e comps labels b d) = Inr (rgb', pre, True, a')"
        "q = torch_clamp rgb' 0 255"
        "\<forall>m<d. outcome e comps labels (state_after e comps labels b m) = Some False" by blast
      have o: "outcome e comps labels a = Some False" using Inr r False by (simp add: outcome_def)
      have "\<forall>m<Suc d. outcome e comps labels (state_after e comps labels a m) = Some False"
      proof (intro allI impI)
        fix m assume "m < Suc d"
        then show "outcome e comps labels (state_after e comps labels a m) = Some False"
          using o d(5) b by (cases m) (auto simp: state_after_Suc)
      qed
      with d b show ?thesis
        by (intro exI[of _ "Suc d"] exI[of _ rgb']) (auto simp: state_after_Suc)
    qed
  qed
qed

lemma for_range_None:
  "for_range e comps labels i n a prev = Inr ((q, pre, None), a') \<Longrightarrow>
   a' = state_after e comps labels a n \<and>
   (\<forall>m<n. outcome e comps labels (state_after e comps labels a m) = Some False) \<and>
   (\<exists>rgb. q = torch_clamp rgb 0 255 \<and>
      (case n of 0 \<Rightarrow> prev = Some (rgb, pre)
       | Suc k \<Rightarrow> step e comps labels (state_after e comps labels a k) = Inr (rgb, pre, False, a')))"
proof (induction n arbitrary: i a prev)
  case 0
  then show ?case by (auto split: option.splits prod.splits)
next
  case (Suc n)
  show ?case
  proof (cases "step e comps labels a")
    case (Inl er)
    with Suc.prems show ?thesis by simp
  next
    case (Inr r)
    obtain rgb p suc b where r: "r = (rgb, p, suc, b)" by (cases r) auto
    have b: "b = update e comps labels a" using Inr r step_update by blast
    have suc: "\<not> suc" using Suc.prems Inr r by (auto split: if_splits)
    with Suc.prems Inr r
    have run: "for_range e comps labels (Suc i) n b (Some (rgb, p)) = Inr ((q, pre, None), a')"
      by simp
    note ih = Suc.IH[OF run]
    have o: "outcome e comps labels a = Some False" using Inr r suc by (simp add: outcome_def)
    have 1: "a' = state_after e comps labels a (Suc n)" using ih b by (simp add: state_after_Suc)
    have 2: "\<forall>m<Suc n. outcome e comps labels (state_after e comps labels a m) = Some False"
      using outcome_shift[OF o] ih b by blast
    from ih obtain rgb' where q: "q = torch_clamp rgb' 0 255"
      and c: "(case n of 0 \<Rightarrow> Some (rgb, p) = Some (rgb', pre)
               | Suc k \<Rightarrow> step e comps labels (state_after e comps labels b k) = Inr (rgb', pre, False, a'))"
      by blast
    have 3: "step e comps labels (state_after e comps labels a n) = Inr (rgb', pre, False, a')"
    proof (cases n)
      case 0
      with c have "rgb' = rgb" "pre = p" by auto
      moreover have "a' = b" using ih 0 by simp
      ultimately show ?thesis using Inr r suc 0 by simp
    next
      case (Suc k)
      with c b show ?thesis by (simp add: state_after_Suc)
    qed
    from 1 2 3 q show ?thesis by auto
  qed
qed

lemma for_range_Inl:
  "for_range e comps labels i n a prev = Inl er \<Longrightarrow>
   (n = 0 \<and> prev = None \<and> er = UnboundLocalError) \<or>
   (\<exists>d<n. step e comps labels (state_after e comps labels a d) = Inl er)"
proof (induction n arbitrary: i a prev)
  case 0
  then show ?case by (auto split: option.splits prod.splits)
next
  case (Suc n)
  show ?case
  proof (cases "step e comps labels a")
    case (Inl er')
    with Suc.prems have "er' = er" by simp
    with Inl have "step e comps labels (state_after e comps labels a 0) = Inl er" by simp
    then show ?thesis by blast
  next
    case (Inr r)
    obtain rgb p suc b where r: "r = (rgb, p, suc, b)" by (cases r) auto
    have b: "b = update e comps labels a" using Inr r step_update by blast
    have suc: "\<not> suc" using Suc.prems Inr r by (auto split: if_splits)
    with Suc.prems Inr r
    have run: "for_range e comps labels (Suc i) n b (Some (rgb, p)) = Inl er"
      by simp
    from Suc.IH[OF run] obtain d where "d < n" "step e comps labels (state_after e comps labels b d) = Inl er"
      by auto
    then have "Suc d < Suc n" "step e comps labels (state_after e comps labels a (Suc d)) = Inl er"
      using b by (auto simp: state_after_Suc)
    then show ?thesis by blast
  qed
qed


lemma for_range_clamped:
  "for_range e comps labels i n a prev = Inr ((q, pre, st), a') \<Longrightarrow>
   \<exists>rgb. q = torch_clamp rgb 0 255"
proof (cases st)
  case None
  assume "for_range e comps labels i n a prev = Inr ((q, pre, st), a')"
  from for_range_None[OF this[unfolded None]] show ?thesis by blast
next
  case (Some j)
  assume "for_range e comps labels i n a prev = Inr ((q, pre, st), a')"
  from for_range_Some[OF this[unfolded Some]] show ?thesis by blast
qed

lemma forward_comps:
  "components images = Inr comps \<Longrightarrow>
   forward e a images labels = for_range e comps labels 0 (nat (steps a)) a None"
  by (simp add: forward_def)

lemma forward_final_state:
  assumes "components images = Inr comps"
    and "forward e a images labels = Inr ((q, pre, st), a')"
  shows "a' = state_after e comps labels a (case st of Some i \<Rightarrow> Suc i | None \<Rightarrow> nat (steps a))"
    and "0 < (case st of Some i \<Rightarrow> Suc i | None \<Rightarrow> nat (steps a))"
    and "(case st of Some i \<Rightarrow> Suc i | None \<Rightarrow> nat (steps a)) \<le> nat (steps a)"
proof -
  from assms have run: "for_range e comps labels 0 (nat (steps a)) a None = Inr ((q, pre, st), a')"
    by (simp add: forward_comps)
  show "a' = state_after e comps labels a (case st of Some i \<Rightarrow> Suc i | None \<Rightarrow> nat (steps a))"
  proof (cases st)
    case None
    from for_range_None[OF run[unfolded None]] None show ?thesis by simp
  next
    case (Some i)
    from for_range_Some[OF run[unfolded Some]] Some show ?thesis
      by (auto simp: state_after_Suc' dest: step_update)
  qed
  show "0 < (case st of Some i \<Rightarrow> Suc i | None \<Rightarrow> nat (steps a))"
  proof (cases st)
    case None
    from for_range_None[OF run[unfolded None]] None show ?thesis
      by (cases "nat (steps a)") auto
  qed simp
  show "(case st of Some i \<Rightarrow> Suc i | None \<Rightarrow> nat (steps a)) \<le> nat (steps a)"
  proof (cases st)
    case (Some i)
    from for_range_Some[OF run[unfolded Some]] Some show ?thesis by auto
  qed simp
qed

lemma forward_negative_steps:
  "components images = Inr comps \<Longrightarrow> steps a \<le> 0 \<Longrightarrow>
   forward e a images labels = Inl UnboundLocalError"
  by (simp add: forward_comps)

lemma forward_raises_only_in_steps:
  assumes "components images = Inr comps" and "0 < steps a"
    and "forward e a images labels = Inl er"
  shows "\<exists>d<nat (steps a). step e comps labels (state_after e comps labels a d) = Inl er"
proof -
  from assms(1,3) have "for_range e comps labels 0 (nat (steps a)) a None = Inl er"
    by (simp add: forward_comps)
  from for_range_Inl[OF this] assms(2) show ?thesis by auto
qed

subsection \<open>Library operations\<close>

lemma shape_np_full: "shape (np_full shp v) = shp"
  by (simp add: np_full_def)

lemma torch_clamp_range:
  "lo \<le> hi \<Longrightarrow> x \<in> set (elems (torch_clamp t lo hi)) \<Longrightarrow> lo \<le> x \<and> x \<le> hi"
  by (auto simp: torch_clamp_def clamp_def)

lemma update_table_nth:
  assumes "length (elems g) = length (elems q)" "i < length (elems q)"
  shows "elems (update_table fr q g) ! i = clamp (elems q ! i - sgn (elems g ! i)) (fst fr) (snd fr)"
  using assms by (simp add: update_table_def torch_clamp_def torch_sub_def torch_sign_def)

lemma update_table_shape:
  "shape (update_table fr q g) = shape q"
  by (simp add: update_table_def torch_clamp_def torch_sub_def)

lemma update_table_length:
  "length (elems g) = length (elems q) \<Longrightarrow> length (elems (update_table fr q g)) = length (elems q)"
  by (simp add: update_table_def torch_clamp_def torch_sub_def torch_sign_def)

lemma update_table_range:
  "fst fr \<le> snd fr \<Longrightarrow> x \<in> set (elems (update_table fr q g)) \<Longrightarrow> fst fr \<le> x \<and> x \<le> snd fr"
  unfolding update_table_def by (rule torch_clamp_range)

lemma update_range:
  "fst (factor_range a) \<le> snd (factor_range a) \<Longrightarrow>
   x \<in> set (elems (q_tables (update e comps labels a) k)) \<Longrightarrow>
   fst (factor_range a) \<le> x \<and> x \<le> snd (factor_range a)"
  using update_table_range[of "factor_range a" x "q_tables a k" "total_cost_grad e a comps labels k"]
  by (simp add: update_def)








subsection \<open>The constructor\<close>

lemma block_n_224: "block_n 224 8 = 784"
  by (simp add: block_n_def)

lemma block_n_square:
  "h = w \<Longrightarrow> block_n h bs = \<lceil>real_of_int h / real_of_int bs\<rceil> * \<lceil>real_of_int w / real_of_int bs\<rceil>"
  by (simp add: block_n_def)

lemma init_fails_iff:
  "isl (InfoDrop_init h w st b bs q tg) \<longleftrightarrow> st = 0 \<or> bs \<le> 0 \<or> b < 0"
  by (auto simp: InfoDrop_init_def)

lemma init_factor_range:
  "InfoDrop_init h w st b bs q tg = Inr a \<Longrightarrow> factor_range a = (5, q)"
  by (auto simp: InfoDrop_init_def split: if_splits)


subsection \<open>The small instance, run\<close>

text \<open>
  A targeted run with the target label 1 misses at step 0 and succeeds at step 1; an
  untargeted run with the true label 0 exhausts its two steps.
\<close>

lemmas toy_defs = toy_env_def toy_comps_def toy_attack_def

lemmas step_defs = step_def observe_def rgb_images_def upresult_def cat_channels_def plane_of_def
  torch_max_indices_def argmax_def adv_loss_raises_def suc_rate_ge_1_def hits_def

lemmas update_defs = update_def update_table_def total_cost_grad_def torch_clamp_def torch_sub_def
  torch_sign_def torch_neg_def clamp_def


lemma toy_components: "components toy_images = Inr toy_comps"
  apply (simp add: components_def toy_images_def channel_def toy_comps_def fun_eq_iff)
  apply (rule allI)
  subgoal for k by (cases k) simp_all
  done

lemma toy_step0:
  "step toy_env toy_comps [1] (toy_attack 2 True) =
     Inr (\<lparr>shape = [1, 3, 1, 1], elems = [310, 5, 17]\<rparr>, [0], False,
          update toy_env toy_comps [1] (toy_attack 2 True))"
  by (simp add: step_def observe_def rgb_images_def upresult_def toy_env_def toy_comps_def toy_attack_def
      cat_channels_def plane_of_def torch_max_indices_def argmax_def adv_loss_raises_def
      suc_rate_ge_1_def hits_def)

lemma toy_step1:
  "step toy_env toy_comps [1] (update toy_env toy_comps [1] (toy_attack 2 True)) =
     Inr (\<lparr>shape = [1, 3, 1, 1], elems = [309, 4, 16]\<rparr>, [1], True,
          update toy_env toy_comps [1] (update toy_env toy_comps [1] (toy_attack 2 True)))"
  by (simp add: step_defs update_defs toy_defs)

lemma toy_forward_targeted:
  "forward toy_env (toy_attack 2 True) toy_images [1] =
     Inr ((\<lparr>shape = [1, 3, 1, 1], elems = [255, 4, 16]\<rparr>, [1], Some 1),
          update toy_env toy_comps [1] (update toy_env toy_comps [1] (toy_attack 2 True)))"
proof -
  have "nat (steps (toy_attack 2 True)) = Suc (Suc 0)" by (simp add: toy_attack_def)
  then show ?thesis
    by (simp add: forward_def toy_components toy_step0 toy_step1 torch_clamp_def clamp_def)
qed




lemma toy_tables_targeted:
  "elems (q_tables (update toy_env toy_comps [1] (update toy_env toy_comps [1] (toy_attack 2 True))) k) = [8]"
  "elems (q_tables (update toy_env toy_comps [1] (toy_attack 2 True)) k) = [9]"
  by (simp_all add: update_defs toy_defs)

lemma toy_tables_untargeted:
  "elems (q_tables (update toy_env toy_comps [0] (update toy_env toy_comps [0] (toy_attack 2 False))) k) = [10]"
  by (simp_all add: update_defs toy_defs)

lemma toy_state_after:
  "state_after e comps labels a (Suc 0) = update e comps labels a"
  "state_after e comps labels a 2 = update e comps labels (update e comps labels a)"
  by (simp_all add: state_after_def numeral_2_eq_2)



lemma toy_grad:
  "total_cost_grad toy_env (toy_attack 2 True) toy_comps [1] k = \<lparr>shape = [1, 1, 1, 1], elems = [3]\<rparr>"
  by (simp add: total_cost_grad_def toy_env_def toy_attack_def)

lemma sure_step0:
  "step sure_env toy_comps [1] (toy_attack 2 True) =
     Inr (\<lparr>shape = [1, 3, 1, 1], elems = [310, 5, 17]\<rparr>, [1], True,
          update sure_env toy_comps [1] (toy_attack 2 True))"
  by (simp add: step_defs sure_env_def toy_defs)



section \<open>Properties of the semantics on objects\<close>

subsection \<open>Reading the store\<close>

lemma bind_Inr_iff: "bind m f = Inr y \<longleftrightarrow> (\<exists>x. m = Inr x \<and> f x = Inr y)"
  by (cases m) (simp_all add: bind_def)

lemma bind_Inr [simp]: "bind (Inr x) f = f x"
  by (simp add: bind_def)

lemma bind_Inl [simp]: "bind (Inl er) f = Inl er"
  by (simp add: bind_def)

lemma get_float_Inr_iff: "get_float s r = Inr t \<longleftrightarrow> r < length s \<and> s ! r = FloatTensor t"
  by (auto simp: get_float_def split: obj.splits)

lemma get_long_Inr_iff: "get_long s r = Inr l \<longleftrightarrow> r < length s \<and> s ! r = LongTensor l"
  by (auto simp: get_long_def split: obj.splits)

lemma get_scalar_Inr_iff:
  "get_scalar s r = Inr v \<longleftrightarrow> r < length s \<and> s ! r = FloatTensor (scalar v)"
  by (cases "s ! r")
     (auto simp: get_scalar_def get_float_def scalar_def split: list.splits if_splits)

lemma get_float_append: "r < length s \<Longrightarrow> get_float (s @ t) r = get_float s r"
  by (simp add: get_float_def nth_append)

lemma get_scalar_append: "r < length s \<Longrightarrow> get_scalar (s @ t) r = get_scalar s r"
  by (simp add: get_scalar_def get_float_append)

lemma mark_case_eta: "(\<lambda>k. case k of Y \<Rightarrow> f Y | Cb \<Rightarrow> f Cb | Cr \<Rightarrow> f Cr) = f"
  by (rule ext) (simp split: mark.splits)

lemma load_Inr:
  assumes "load s ob = Inr a"
  shows "alpha_ref ob < length s" "s ! alpha_ref ob = FloatTensor (scalar (alpha a))"
    "alpha_interval_ref ob < length s"
    "s ! alpha_interval_ref ob = FloatTensor (scalar (alpha_interval a))"
    "q_table_refs ob k < length s" "s ! q_table_refs ob k = FloatTensor (q_tables a k)"
    "steps a = steps ob" "targeted a = targeted ob" "batch_size a = batch_size ob"
    "height a = height ob" "width a = width ob" "factor_range a = factor_range ob"
    "alpha_range a = alpha_range ob"
  using assms
  by (cases k; auto simp: load_def bind_Inr_iff get_scalar_Inr_iff get_float_Inr_iff)+

lemma load_Inr_iff:
  "load s ob = Inr a \<longleftrightarrow>
     get_scalar s (alpha_ref ob) = Inr (alpha a) \<and>
     get_scalar s (alpha_interval_ref ob) = Inr (alpha_interval a) \<and>
     (\<forall>k. get_float s (q_table_refs ob k) = Inr (q_tables a k)) \<and>
     steps a = steps ob \<and> targeted a = targeted ob \<and> batch_size a = batch_size ob \<and>
     height a = height ob \<and> width a = width ob \<and> factor_range a = factor_range ob \<and>
     alpha_range a = alpha_range ob"
proof
  assume "load s ob = Inr a"
  from load_Inr[OF this] show "get_scalar s (alpha_ref ob) = Inr (alpha a) \<and>
     get_scalar s (alpha_interval_ref ob) = Inr (alpha_interval a) \<and>
     (\<forall>k. get_float s (q_table_refs ob k) = Inr (q_tables a k)) \<and>
     steps a = steps ob \<and> targeted a = targeted ob \<and> batch_size a = batch_size ob \<and>
     height a = height ob \<and> width a = width ob \<and> factor_range a = factor_range ob \<and>
     alpha_range a = alpha_range ob"
    by (simp add: get_scalar_Inr_iff get_float_Inr_iff)
next
  assume h: "get_scalar s (alpha_ref ob) = Inr (alpha a) \<and>
     get_scalar s (alpha_interval_ref ob) = Inr (alpha_interval a) \<and>
     (\<forall>k. get_float s (q_table_refs ob k) = Inr (q_tables a k)) \<and>
     steps a = steps ob \<and> targeted a = targeted ob \<and> batch_size a = batch_size ob \<and>
     height a = height ob \<and> width a = width ob \<and> factor_range a = factor_range ob \<and>
     alpha_range a = alpha_range ob"
  have "a = \<lparr>steps = steps ob, targeted = targeted ob, batch_size = batch_size ob,
            height = height ob, width = width ob, factor_range = factor_range ob,
            alpha_range = alpha_range ob,
            alpha = alpha a, alpha_interval = alpha_interval a,
            q_tables = (\<lambda>k. case k of Y \<Rightarrow> q_tables a Y | Cb \<Rightarrow> q_tables a Cb | Cr \<Rightarrow> q_tables a Cr)\<rparr>"
    using h by (simp add: mark_case_eta)
  then show "load s ob = Inr a" using h by (simp add: load_def)
qed

subsection \<open>What a call writes\<close>

text \<open>
  A step allocates, overwrites the alpha tensor and rebinds the tables to three of the
  tensors it allocated; a step that raises has written nothing.
\<close>

lemma frame_refl: "frame ar s s"
  by (simp add: frame_def)

lemma frame_trans: "frame ar s s' \<Longrightarrow> frame ar s' s'' \<Longrightarrow> frame ar s s''"
  by (auto simp: frame_def)

lemma frame_append: "frame ar s (s @ t)"
  by (simp add: frame_def nth_append)

lemma frame_update: "frame ar s (s[ar := v])"
  by (simp add: frame_def)

lemma frame_nth: "frame ar s s' \<Longrightarrow> r < length s \<Longrightarrow> r \<noteq> ar \<Longrightarrow> s' ! r = s ! r"
  by (simp add: frame_def)

lemma rebind_table_Inr:
  assumes "rebind_table grad k (ob, s) = Inr (ob', s')"
  shows "\<exists>q. s ! q_table_refs ob k = FloatTensor q \<and> q_table_refs ob k < length s \<and>
             s' = s @ [FloatTensor (update_table (factor_range ob) q (grad k))] \<and>
             ob' = ob\<lparr>q_table_refs := (q_table_refs ob)(k := length s)\<rparr>"
  using assms
  by (auto simp: rebind_table_def bind_Inr_iff get_float_Inr_iff alloc_def)

lemma step_obj_Inr:
  assumes "step_obj e comps labels s ob = Inr (rgb_r, pre_r, suc, ob', s')"
  shows "\<exists>a rgb pre s3.
     load s ob = Inr a \<and> observe e comps labels a = Inr (rgb, pre, suc) \<and>
     rgb_r = length s \<and> pre_r = Suc (length s) \<and>
     s3 = (s @ [FloatTensor rgb, LongTensor pre])
            [alpha_ref ob := FloatTensor (scalar (alpha a + alpha_interval a))] \<and>
     s' = s3 @ map (\<lambda>k. case s3 ! q_table_refs ob k of
                            FloatTensor q \<Rightarrow>
                              FloatTensor (update_table (factor_range ob) q (total_cost_grad e a comps labels k))
                          | LongTensor l \<Rightarrow> LongTensor l) [Y, Cb, Cr] \<and>
     ob' = ob\<lparr>q_table_refs := ((q_table_refs ob)(Y := length s3, Cb := Suc (length s3),
                                                   Cr := Suc (Suc (length s3))))\<rparr>"
proof -
  from assms obtain a rgb pre where a: "load s ob = Inr a"
    and o: "observe e comps labels a = Inr (rgb, pre, suc)"
    and r: "rgb_r = length s" "pre_r = Suc (length s)"
    and rest: "bind (rebind_table (total_cost_grad e a comps labels) Y
                 (ob, (s @ [FloatTensor rgb, LongTensor pre])
                        [alpha_ref ob := FloatTensor (scalar (alpha a + alpha_interval a))]))
                (\<lambda>obs. bind (rebind_table (total_cost_grad e a comps labels) Cb obs)
                (\<lambda>obs. bind (rebind_table (total_cost_grad e a comps labels) Cr obs)
                (\<lambda>(ob', s'). Inr (rgb_r, pre_r, suc, ob', s')))) = Inr (rgb_r, pre_r, suc, ob', s')"
    by (auto simp: step_obj_def bind_Inr_iff alloc_def Let_def split: prod.splits)
  let ?g = "total_cost_grad e a comps labels"
  let ?s3 = "(s @ [FloatTensor rgb, LongTensor pre])
                        [alpha_ref ob := FloatTensor (scalar (alpha a + alpha_interval a))]"
  have len: "q_table_refs ob k < length ?s3" for k
    using load_Inr(5)[OF a, of k] by simp
  from rest obtain ob1 s4 ob2 s5 where
    1: "rebind_table ?g Y (ob, ?s3) = Inr (ob1, s4)" and
    2: "rebind_table ?g Cb (ob1, s4) = Inr (ob2, s5)" and
    3: "rebind_table ?g Cr (ob2, s5) = Inr (ob', s')"
    by (auto simp: bind_Inr_iff)
  from rebind_table_Inr[OF 1] obtain qy where y: "?s3 ! q_table_refs ob Y = FloatTensor qy"
    "s4 = ?s3 @ [FloatTensor (update_table (factor_range ob) qy (?g Y))]"
    "ob1 = ob\<lparr>q_table_refs := (q_table_refs ob)(Y := length ?s3)\<rparr>" by blast
  from rebind_table_Inr[OF 2] obtain qcb where cb: "s4 ! q_table_refs ob1 Cb = FloatTensor qcb"
    "s5 = s4 @ [FloatTensor (update_table (factor_range ob1) qcb (?g Cb))]"
    "ob2 = ob1\<lparr>q_table_refs := (q_table_refs ob1)(Cb := length s4)\<rparr>" by blast
  from rebind_table_Inr[OF 3] obtain qcr where cr: "s5 ! q_table_refs ob2 Cr = FloatTensor qcr"
    "s' = s5 @ [FloatTensor (update_table (factor_range ob2) qcr (?g Cr))]"
    "ob' = ob2\<lparr>q_table_refs := (q_table_refs ob2)(Cr := length s5)\<rparr>" by blast
  have cb': "?s3 ! q_table_refs ob Cb = FloatTensor qcb"
    using cb(1) len[of Cb] by (simp add: y(2,3) nth_append)
  have cr': "?s3 ! q_table_refs ob Cr = FloatTensor qcr"
    using cr(1) len[of Cr] by (simp add: y(2,3) cb(2,3) nth_append)
  have s': "s' = ?s3 @ map (\<lambda>k. case ?s3 ! q_table_refs ob k of
                            FloatTensor q \<Rightarrow>
                              FloatTensor (update_table (factor_range ob) q (?g k))
                          | LongTensor l \<Rightarrow> LongTensor l) [Y, Cb, Cr]"
    by (simp add: cr(2,3) cb(2,3) y cb' cr')
  have ob': "ob' = ob\<lparr>q_table_refs := ((q_table_refs ob)(Y := length ?s3, Cb := Suc (length ?s3),
                                                   Cr := Suc (Suc (length ?s3))))\<rparr>"
    by (simp add: cr(2,3) cb(2,3) y(2,3))
  from a o r s' ob' show ?thesis by blast
qed

lemma step_obj_frame:
  assumes "step_obj e comps labels s ob = Inr (rgb_r, pre_r, suc, ob', s')"
  shows "frame (alpha_ref ob) s s'"
    and "ob' = ob\<lparr>q_table_refs := q_table_refs ob'\<rparr>"
    and "rgb_r = length s" and "pre_r = Suc (length s)" and "Suc (Suc (length s)) \<le> length s'"
    and "length s \<le> q_table_refs ob' k \<and> q_table_refs ob' k < length s'"
    and "alpha_ref ob < length s" and "\<exists>v. s ! alpha_ref ob = FloatTensor (scalar v)"
    and "\<exists>rgb. s' ! rgb_r = FloatTensor rgb"
proof -
  from step_obj_Inr[OF assms] obtain a rgb pre s3 where
    a: "load s ob = Inr a" and r: "rgb_r = length s" "pre_r = Suc (length s)"
    and s3: "s3 = (s @ [FloatTensor rgb, LongTensor pre])
            [alpha_ref ob := FloatTensor (scalar (alpha a + alpha_interval a))]"
    and s': "s' = s3 @ map (\<lambda>k. case s3 ! q_table_refs ob k of
                            FloatTensor q \<Rightarrow>
                              FloatTensor (update_table (factor_range ob) q (total_cost_grad e a comps labels k))
                          | LongTensor l \<Rightarrow> LongTensor l) [Y, Cb, Cr]"
    and ob': "ob' = ob\<lparr>q_table_refs := ((q_table_refs ob)(Y := length s3, Cb := Suc (length s3),
                                                   Cr := Suc (Suc (length s3))))\<rparr>"
    by blast
  have l3: "length s3 = Suc (Suc (length s))" by (simp add: s3)
  have "frame (alpha_ref ob) s (s @ [FloatTensor rgb, LongTensor pre])" by (rule frame_append)
  moreover have "frame (alpha_ref ob) (s @ [FloatTensor rgb, LongTensor pre]) s3"
    unfolding s3 by (rule frame_update)
  moreover have "frame (alpha_ref ob) s3 s'" unfolding s' by (rule frame_append)
  ultimately show "frame (alpha_ref ob) s s'" by (blast intro: frame_trans)
  show "ob' = ob\<lparr>q_table_refs := q_table_refs ob'\<rparr>" by (simp add: ob')
  show "rgb_r = length s" "pre_r = Suc (length s)" by (rule r)+
  show "Suc (Suc (length s)) \<le> length s'" by (simp add: s' l3)
  show "length s \<le> q_table_refs ob' k \<and> q_table_refs ob' k < length s'"
    by (cases k) (simp_all add: ob' s' l3)
  show al: "alpha_ref ob < length s" by (rule load_Inr(1)[OF a])
  show "\<exists>v. s ! alpha_ref ob = FloatTensor (scalar v)" using load_Inr(2)[OF a] by blast
  have "alpha_ref ob \<noteq> length s" using al by simp
  then show "\<exists>rgb. s' ! rgb_r = FloatTensor rgb"
    by (simp add: s' s3 r nth_append)
qed

lemma step_obj_Inl:
  assumes "step_obj e comps labels s ob = Inl er"
  shows "load s ob = Inl er \<or> (\<exists>a. load s ob = Inr a \<and> observe e comps labels a = Inl er)"
proof (cases "load s ob")
  case (Inl er')
  with assms show ?thesis by (simp add: step_obj_def)
next
  case (Inr a)
  show ?thesis
  proof (cases "observe e comps labels a")
    case (Inl er')
    with assms Inr show ?thesis by (simp add: step_obj_def)
  next
    case inr: (Inr res)
    obtain rgb pre suc where res: "res = (rgb, pre, suc)" by (cases res) auto
    let ?g = "total_cost_grad e a comps labels"
    let ?s3 = "(s @ [FloatTensor rgb, LongTensor pre])
                [alpha_ref ob := FloatTensor (scalar (alpha a + alpha_interval a))]"
    have ex: "\<exists>q. get_float (?s3 @ t) (q_table_refs ob k) = Inr q" for k t
    proof -
      have lt: "q_table_refs ob k < length s" "s ! q_table_refs ob k = FloatTensor (q_tables a k)"
        using load_Inr(5,6)[OF Inr] by simp_all
      show ?thesis
      proof (cases "q_table_refs ob k = alpha_ref ob")
        case True
        then show ?thesis using lt by (simp add: get_float_Inr_iff nth_append)
      next
        case False
        then show ?thesis using lt by (simp add: get_float_Inr_iff nth_append)
      qed
    qed
    from ex[of "[]" Y] obtain qy where qy: "get_float ?s3 (q_table_refs ob Y) = Inr qy" by auto
    from ex[of "[x]" Cb for x] obtain qcb where
      qcb: "\<And>x. get_float (?s3 @ [x]) (q_table_refs ob Cb) = Inr (qcb x)" by metis
    from ex[of "[x, y]" Cr for x y] obtain qcr where
      qcr: "\<And>x y. get_float (?s3 @ [x, y]) (q_table_refs ob Cr) = Inr (qcr x y)" by metis
    have "\<exists>r. step_obj e comps labels s ob = Inr r"
      unfolding step_obj_def
      using qy qcb qcr
      by (simp add: Inr inr res alloc_def rebind_table_def Let_def del: list_update.simps)
    with assms show ?thesis by auto
  qed
qed

lemma return_obj_Inr:
  assumes "return_obj rgb_r pre_r st ob s = Inr ((q_r, pre_r', st'), ob', s')"
  shows "\<exists>rgb. rgb_r < length s \<and> s ! rgb_r = FloatTensor rgb \<and>
           s' = s @ [FloatTensor (torch_clamp rgb 0 255)] \<and> q_r = length s \<and>
           pre_r' = pre_r \<and> st' = st \<and> ob' = ob"
  using assms by (auto simp: return_obj_def get_float_Inr_iff alloc_def split: sum.splits)

lemma alpha_ref_rebound: "ob' = ob\<lparr>q_table_refs := f\<rparr> \<Longrightarrow> alpha_ref ob' = alpha_ref ob"
  by simp

lemma rebound_trans:
  "ob1 = ob\<lparr>q_table_refs := f\<rparr> \<Longrightarrow> ob' = ob1\<lparr>q_table_refs := g\<rparr> \<Longrightarrow>
   ob' = ob\<lparr>q_table_refs := q_table_refs ob'\<rparr>"
  by simp

lemma for_range_obj_frame:
  assumes "for_range_obj e comps labels i n s ob prev = Inr ((q_r, pre_r, st), ob', s')"
  shows "frame (alpha_ref ob) s s' \<and> ob' = ob\<lparr>q_table_refs := q_table_refs ob'\<rparr> \<and>
         q_r = length s' - 1 \<and> length s < length s' \<and>
         (case n of
            0 \<Rightarrow> ob' = ob \<and> (\<exists>r. prev = Some (r, pre_r))
          | Suc m \<Rightarrow> length s \<le> pre_r \<and> pre_r < length s' \<and> Suc (Suc (length s)) < length s' \<and>
              (\<forall>k. length s \<le> q_table_refs ob' k \<and> q_table_refs ob' k < length s') \<and>
              alpha_ref ob < length s \<and> (\<exists>v. s ! alpha_ref ob = FloatTensor (scalar v)))"
  using assms
proof (induction n arbitrary: i s ob prev)
  case 0
  then obtain r p where prev: "prev = Some (r, p)"
    and ret: "return_obj r p None ob s = Inr ((q_r, pre_r, st), ob', s')"
    by (auto split: option.splits prod.splits)
  from return_obj_Inr[OF ret] show ?case
    by (auto simp: prev frame_append)
next
  case (Suc n)
  from Suc.prems obtain rgb_r p_r suc ob1 s1 where
    st1: "step_obj e comps labels s ob = Inr (rgb_r, p_r, suc, ob1, s1)"
    by (auto split: sum.splits)
  note f = step_obj_frame[OF st1]
  show ?case
  proof (cases suc)
    case True
    with Suc.prems st1 have ret: "return_obj rgb_r p_r (Some i) ob1 s1 = Inr ((q_r, pre_r, st), ob', s')"
      by simp
    from return_obj_Inr[OF ret] obtain rgb where
      r: "s' = s1 @ [FloatTensor (torch_clamp rgb 0 255)]" "q_r = length s1" "pre_r = p_r" "ob' = ob1"
      by blast
    have "frame (alpha_ref ob) s s'"
      using f(1) frame_append[of "alpha_ref ob" s1] unfolding r(1) by (blast intro: frame_trans)
    moreover have "ob' = ob\<lparr>q_table_refs := q_table_refs ob'\<rparr>" using f(2) r(4) by simp
    moreover have "\<forall>k. length s \<le> q_table_refs ob' k \<and> q_table_refs ob' k < length s'"
      using f(6) by (auto simp: r(1,4) less_Suc_eq)
    ultimately show ?thesis using f(3,4,5,7,8) by (simp add: r)
  next
    case False
    with Suc.prems st1
    have run: "for_range_obj e comps labels (Suc i) n s1 ob1 (Some (rgb_r, p_r)) = Inr ((q_r, pre_r, st), ob', s')"
      by simp
    note ih = Suc.IH[OF run]
    have a1: "alpha_ref ob1 = alpha_ref ob" using f(2) by (metis attack_obj.select_convs(1) attack_obj.surjective attack_obj.update_convs(3))
    have fr: "frame (alpha_ref ob) s s'" using f(1) ih a1 by (auto intro: frame_trans)
    have ob: "ob' = ob\<lparr>q_table_refs := q_table_refs ob'\<rparr>"
    proof -
      from ih have "ob' = ob1\<lparr>q_table_refs := q_table_refs ob'\<rparr>" by blast
      then have "ob' = (ob\<lparr>q_table_refs := q_table_refs ob1\<rparr>)\<lparr>q_table_refs := q_table_refs ob'\<rparr>"
        using f(2) by simp
      then show ?thesis by simp
    qed
    have len: "length s1 < length s'" "q_r = length s' - 1" using ih by auto
    have rest: "length s \<le> pre_r \<and> pre_r < length s' \<and>
              (\<forall>k. length s \<le> q_table_refs ob' k \<and> q_table_refs ob' k < length s')"
    proof (cases n)
      case 0
      with ih have "ob' = ob1" "pre_r = p_r" by auto
      then show ?thesis using f(4,5,6) len(1) by (auto simp: less_Suc_eq intro: less_trans)
    next
      case (Suc m)
      with ih have "length s1 \<le> pre_r \<and> pre_r < length s' \<and>
              (\<forall>k. length s1 \<le> q_table_refs ob' k \<and> q_table_refs ob' k < length s')" by simp
      moreover have "length s \<le> length s1" using f(5) by simp
      ultimately show ?thesis by (meson le_trans)
    qed
    from fr ob len rest f(5,7,8) show ?thesis by auto
  qed
qed

lemma for_range_obj_frame_Inl:
  assumes "for_range_obj e comps labels i n s ob prev = Inl (er, ob', s')"
  shows "frame (alpha_ref ob) s s' \<and> ob' = ob\<lparr>q_table_refs := q_table_refs ob'\<rparr> \<and>
         (ob' = ob \<and> s' = s \<or>
          alpha_ref ob < length s \<and> (\<exists>v. s ! alpha_ref ob = FloatTensor (scalar v)))"
  using assms
proof (induction n arbitrary: i s ob prev)
  case 0
  then have "ob' = ob \<and> s' = s"
    by (auto simp: return_obj_def alloc_def split: option.splits prod.splits sum.splits)
  then show ?case by (simp add: frame_refl)
next
  case (Suc n)
  show ?case
  proof (cases "step_obj e comps labels s ob")
    case (Inl er')
    with Suc.prems have "ob' = ob \<and> s' = s" by simp
    then show ?thesis by (simp add: frame_refl)
  next
    case (Inr res)
    obtain rgb_r p_r suc ob1 s1 where res: "res = (rgb_r, p_r, suc, ob1, s1)"
      by (cases res) auto
    note f = step_obj_frame[OF Inr[unfolded res]]
    have a1: "alpha_ref ob1 = alpha_ref ob" using f(2) by (rule alpha_ref_rebound)
    have "frame (alpha_ref ob) s1 s' \<and> ob' = ob1\<lparr>q_table_refs := q_table_refs ob'\<rparr>"
    proof (cases suc)
      case True
      with Suc.prems Inr res have "return_obj rgb_r p_r (Some i) ob1 s1 = Inl (er, ob', s')"
        by simp
      then have "ob' = ob1 \<and> s' = s1"
        by (auto simp: return_obj_def alloc_def split: sum.splits prod.splits)
      then show ?thesis by (simp add: frame_refl)
    next
      case False
      with Suc.prems Inr res
      have "for_range_obj e comps labels (Suc i) n s1 ob1 (Some (rgb_r, p_r)) = Inl (er, ob', s')"
        by simp
      from Suc.IH[OF this] show ?thesis by (simp add: a1)
    qed
    then have "frame (alpha_ref ob) s s'" "ob' = ob\<lparr>q_table_refs := q_table_refs ob'\<rparr>"
      using f(1) f(2) by (blast intro: frame_trans rebound_trans)+
    then show ?thesis using f(7,8) by blast
  qed
qed

lemma components_Inr_shape: "components t = Inr comps \<Longrightarrow> length (shape t) = 4"
  by (auto simp: components_def split: list.splits if_splits)

lemma callers_apart:
  assumes "get_float s images_r = Inr images" and "get_long s labels_r = Inr labels"
    and "components images = Inr comps"
    and "(s @ t) ! alpha_ref ob = FloatTensor (scalar v)"
  shows "images_r \<noteq> alpha_ref ob" and "labels_r \<noteq> alpha_ref ob"
proof -
  from assms(1) have im: "images_r < length s" "s ! images_r = FloatTensor images"
    by (simp_all add: get_float_Inr_iff)
  from assms(2) have lb: "labels_r < length s" "s ! labels_r = LongTensor labels"
    by (simp_all add: get_long_Inr_iff)
  show "images_r \<noteq> alpha_ref ob"
  proof
    assume "images_r = alpha_ref ob"
    with assms(4) im have "images = scalar v" by (simp add: nth_append)
    with components_Inr_shape[OF assms(3)] show False by (simp add: scalar_def)
  qed
  show "labels_r \<noteq> alpha_ref ob"
  proof
    assume "labels_r = alpha_ref ob"
    with assms(4) lb show False by (simp add: nth_append)
  qed
qed

lemma forward_obj_frame:
  assumes "final_state (forward_obj e s ob images_r labels_r) = (ob', s')"
  shows "frame (alpha_ref ob) s s'"
    and "ob' = ob\<lparr>q_table_refs := q_table_refs ob'\<rparr>"
    and "images_r < length s \<Longrightarrow> s' ! images_r = s ! images_r"
    and "labels_r < length s \<Longrightarrow> s' ! labels_r = s ! labels_r"
proof -
  have "frame (alpha_ref ob) s s' \<and> ob' = ob\<lparr>q_table_refs := q_table_refs ob'\<rparr> \<and>
        (images_r < length s \<longrightarrow> s' ! images_r = s ! images_r) \<and>
        (labels_r < length s \<longrightarrow> s' ! labels_r = s ! labels_r)"
  proof (cases "get_float s images_r")
    case (Inl er)
    with assms have "ob' = ob" "s' = s" by (simp_all add: forward_obj_def final_state_def)
    then show ?thesis by (simp add: frame_refl)
  next
    case im: (Inr images)
    show ?thesis
    proof (cases "get_long s labels_r")
      case (Inl er)
      with assms im have "ob' = ob" "s' = s" by (simp_all add: forward_obj_def final_state_def)
      then show ?thesis by (simp add: frame_refl)
    next
      case lb: (Inr labels)
      let ?s2 = "s @ [FloatTensor images, LongTensor labels]"
      have f2: "frame (alpha_ref ob) s ?s2" by (rule frame_append)
      show ?thesis
      proof (cases "components images")
        case (Inl er)
        with assms im lb have "ob' = ob" "s' = ?s2"
          by (simp_all add: forward_obj_def final_state_def alloc_def)
        then show ?thesis using f2 by (simp add: nth_append)
      next
        case co: (Inr comps)
        let ?run = "for_range_obj e comps labels 0 (nat (steps ob)) ?s2 ob None"
        have fw: "forward_obj e s ob images_r labels_r = ?run"
          by (simp add: forward_obj_def im lb co alloc_def)
        have "frame (alpha_ref ob) ?s2 s' \<and> ob' = ob\<lparr>q_table_refs := q_table_refs ob'\<rparr> \<and>
              (s' = ?s2 \<or> (\<exists>v. ?s2 ! alpha_ref ob = FloatTensor (scalar v)))"
        proof (cases ?run)
          case (Inl r)
          obtain er x y where r: "r = (er, x, y)" by (cases r) auto
          with assms fw Inl have "x = ob'" "y = s'" by (simp_all add: final_state_def)
          with Inl r for_range_obj_frame_Inl[of e comps labels 0 "nat (steps ob)" ?s2 ob None er ob' s']
          show ?thesis by blast
        next
          case (Inr r)
          obtain res x y where r: "r = (res, x, y)" by (cases r) auto
          obtain q_r pre_r st where res: "res = (q_r, pre_r, st)" by (cases res) auto
          from assms fw Inr r have xy: "x = ob'" "y = s'" by (simp_all add: final_state_def)
          note f = for_range_obj_frame[OF Inr[unfolded r res xy]]
          then obtain m where "nat (steps ob) = Suc m" by (cases "nat (steps ob)") auto
          with f show ?thesis by simp
        qed
        then have fr: "frame (alpha_ref ob) ?s2 s'"
          and ob: "ob' = ob\<lparr>q_table_refs := q_table_refs ob'\<rparr>"
          and alt: "s' = ?s2 \<or> (\<exists>v. ?s2 ! alpha_ref ob = FloatTensor (scalar v))"
          by blast+
        have "s' ! images_r = s ! images_r \<and> s' ! labels_r = s ! labels_r"
          if "images_r < length s" "labels_r < length s"
          using alt
        proof
          assume "s' = ?s2"
          then show ?thesis using that by (simp add: nth_append)
        next
          assume "\<exists>v. ?s2 ! alpha_ref ob = FloatTensor (scalar v)"
          then obtain v where "?s2 ! alpha_ref ob = FloatTensor (scalar v)" ..
          from callers_apart[OF im lb co this] fr that
          show ?thesis by (simp add: frame_nth nth_append)
        qed
        moreover have "images_r < length s" "labels_r < length s"
          using im lb by (simp_all add: get_float_Inr_iff get_long_Inr_iff)
        ultimately show ?thesis using frame_trans[OF f2 fr] ob by blast
      qed
    qed
  qed
  then show "frame (alpha_ref ob) s s'"
    and "ob' = ob\<lparr>q_table_refs := q_table_refs ob'\<rparr>"
    and "images_r < length s \<Longrightarrow> s' ! images_r = s ! images_r"
    and "labels_r < length s \<Longrightarrow> s' ! labels_r = s ! labels_r"
    by blast+
qed

lemma forward_obj_returns_new:
  assumes "forward_obj e s ob images_r labels_r = Inr ((q_r, pre_r, st), ob', s')"
  shows "length s \<le> q_r \<and> q_r < length s' \<and> length s \<le> pre_r \<and> pre_r < length s' \<and>
         (\<forall>k. length s \<le> q_table_refs ob' k \<and> q_table_refs ob' k < length s')"
proof -
  from assms obtain images labels comps where
    run: "for_range_obj e comps labels 0 (nat (steps ob))
            (s @ [FloatTensor images, LongTensor labels]) ob None = Inr ((q_r, pre_r, st), ob', s')"
    by (auto simp: forward_obj_def alloc_def split: sum.splits)
  note f = for_range_obj_frame[OF run]
  then obtain m where n: "nat (steps ob) = Suc m" by (cases "nat (steps ob)") auto
  let ?s2 = "s @ [FloatTensor images, LongTensor labels]"
  from f have q: "q_r = length s' - 1" "length ?s2 < length s'"
    and pre: "length ?s2 \<le> pre_r" "pre_r < length s'"
    and tabs: "\<And>k. length ?s2 \<le> q_table_refs ob' k \<and> q_table_refs ob' k < length s'"
    by (simp_all add: n)
  have "length s \<le> q_table_refs ob' k \<and> q_table_refs ob' k < length s'" for k
    using tabs[of k] by simp
  then show ?thesis using q pre by auto
qed

subsection \<open>The two semantics agree\<close>

text \<open>
  For an object whose tensors do not share memory with alpha, as the constructor builds
  it, the semantics on objects computes what the value-level semantics computes: the
  same error, or the same step, with the returned tensors and the attributes of the
  object holding the same values.
\<close>

lemma step_obj_raises:
  assumes "load s ob = Inr a" and "step e comps labels a = Inl er"
  shows "step_obj e comps labels s ob = Inl er"
proof -
  from assms(2) have "observe e comps labels a = Inl er"
    by (auto simp: step_def split: sum.splits)
  then show ?thesis by (simp add: step_obj_def assms(1))
qed

lemma step_obj_refines:
  assumes a: "load s ob = Inr a" and ap: "alpha_apart ob"
    and st: "step e comps labels a = Inr (rgb, pre, suc, a')"
  shows "\<exists>ob' s'. step_obj e comps labels s ob = Inr (length s, Suc (length s), suc, ob', s') \<and>
           load s' ob' = Inr a' \<and> alpha_apart ob' \<and>
           get_float s' (length s) = Inr rgb \<and> get_long s' (Suc (length s)) = Inr pre"
proof -
  from st have o: "observe e comps labels a = Inr (rgb, pre, suc)"
    and a': "a' = update e comps labels a"
    by (auto simp: step_def split: sum.splits)
  note l = load_Inr[OF a]
  let ?g = "total_cost_grad e a comps labels"
  let ?s3 = "(s @ [FloatTensor rgb, LongTensor pre])
                [alpha_ref ob := FloatTensor (scalar (alpha a + alpha_interval a))]"
  let ?t = "\<lambda>k. FloatTensor (update_table (factor_range ob) (q_tables a k) (?g k))"
  let ?s' = "?s3 @ [?t Y, ?t Cb, ?t Cr]"
  let ?ob' = "ob\<lparr>q_table_refs := (q_table_refs ob)(Y := length ?s3, Cb := Suc (length ?s3),
                                                   Cr := Suc (Suc (length ?s3)))\<rparr>"
  have ne: "q_table_refs ob k \<noteq> alpha_ref ob" for k
    using ap by (cases k) (simp_all add: alpha_apart_def)
  have g3: "get_float ?s3 (q_table_refs ob k) = Inr (q_tables a k)" for k
    using l(5,6)[of k] ne[of k] by (simp add: get_float_Inr_iff nth_append)
  have l3: "q_table_refs ob k < length ?s3" for k using l(5)[of k] by simp
  have g4: "get_float (?s3 @ t) (q_table_refs ob k) = Inr (q_tables a k)" for k t
    using g3[of k] l3[of k] by (simp only: get_float_append)
  have run: "step_obj e comps labels s ob = Inr (length s, Suc (length s), suc, ?ob', ?s')"
    unfolding step_obj_def
    using g3 g4[of "[x]" for x] g4[of "[x, y]" for x y]
    by (simp add: a o alloc_def rebind_table_def Let_def del: list_update.simps)
  have al: "get_scalar ?s' (alpha_ref ob') = Inr (alpha a')" if "ob' = ?ob'" for ob'
    using l(1) by (simp add: that get_scalar_Inr_iff nth_append a')
  have iv: "get_scalar ?s' (alpha_interval_ref ?ob') = Inr (alpha_interval a')"
    using l(3,4) ap by (simp add: get_scalar_Inr_iff nth_append a' alpha_apart_def)
  have tb: "get_float ?s' (q_table_refs ?ob' k) = Inr (q_tables a' k)" for k
    by (cases k) (simp_all add: get_float_Inr_iff nth_append a' update_def l(12))
  have "load ?s' ?ob' = Inr a'"
    unfolding load_Inr_iff using al[OF refl] iv tb by (simp add: a' l)
  moreover have "alpha_apart ?ob'"
    using ap l(1) by (simp add: alpha_apart_def)
  moreover have "get_float ?s' (length s) = Inr rgb" "get_long ?s' (Suc (length s)) = Inr pre"
    using l(1) by (simp_all add: get_float_Inr_iff get_long_Inr_iff nth_append)
  ultimately show ?thesis using run by blast
qed

lemma for_range_obj_refines:
  assumes "load s ob = Inr a" and "alpha_apart ob"
    and "case prev of None \<Rightarrow> prev_r = None
         | Some (rgb, pre) \<Rightarrow> \<exists>r p. prev_r = Some (r, p) \<and> get_float s r = Inr rgb \<and>
                                   get_long s p = Inr pre"
  shows "(case for_range e comps labels i n a prev of
            Inl er \<Rightarrow> \<exists>ob' s'. for_range_obj e comps labels i n s ob prev_r = Inl (er, ob', s')
          | Inr ((q, pre, st), a') \<Rightarrow>
              \<exists>q_r pre_r ob' s'.
                for_range_obj e comps labels i n s ob prev_r = Inr ((q_r, pre_r, st), ob', s') \<and>
                load s' ob' = Inr a' \<and> alpha_apart ob' \<and>
                get_float s' q_r = Inr q \<and> get_long s' pre_r = Inr pre)"
  using assms
proof (induction n arbitrary: i s ob a prev prev_r)
  case 0
  show ?case
  proof (cases prev)
    case None
    with "0.prems"(3) show ?thesis by simp
  next
    case (Some rp)
    obtain rgb pre where rp: "rp = (rgb, pre)" by (cases rp) auto
    from "0.prems"(3) Some rp obtain r p where
      pr: "prev_r = Some (r, p)" "get_float s r = Inr rgb" "get_long s p = Inr pre" by auto
    let ?s' = "s @ [FloatTensor (torch_clamp rgb 0 255)]"
    have lt: "alpha_ref ob < length s" "alpha_interval_ref ob < length s"
      "\<And>k. q_table_refs ob k < length s" "p < length s"
      using load_Inr[OF "0.prems"(1)] pr(3) by (simp_all add: get_long_Inr_iff)
    have "load ?s' ob = Inr a"
      using "0.prems"(1) lt unfolding load_Inr_iff
      by (simp add: get_float_append get_scalar_append)
    moreover have "get_float ?s' (length s) = Inr (torch_clamp rgb 0 255)"
      by (simp add: get_float_Inr_iff)
    moreover have "get_long ?s' p = Inr pre"
      using pr(3) by (simp add: get_long_Inr_iff nth_append)
    ultimately show ?thesis
      using "0.prems"(2) by (simp add: Some rp pr return_obj_def alloc_def)
  qed
next
  case (Suc n)
  show ?case
  proof (cases "step e comps labels a")
    case (Inl er)
    from step_obj_raises[OF Suc.prems(1) Inl] Inl show ?thesis by simp
  next
    case (Inr res)
    obtain rgb pre suc a1 where res: "res = (rgb, pre, suc, a1)" by (cases res) auto
    from step_obj_refines[OF Suc.prems(1,2) Inr[unfolded res]] obtain ob1 s1 where
      so: "step_obj e comps labels s ob = Inr (length s, Suc (length s), suc, ob1, s1)"
      and l1: "load s1 ob1 = Inr a1" and ap1: "alpha_apart ob1"
      and g1: "get_float s1 (length s) = Inr rgb" "get_long s1 (Suc (length s)) = Inr pre"
      by blast
    show ?thesis
    proof (cases suc)
      case True
      let ?s' = "s1 @ [FloatTensor (torch_clamp rgb 0 255)]"
      have lt: "alpha_ref ob1 < length s1" "alpha_interval_ref ob1 < length s1"
        "\<And>k. q_table_refs ob1 k < length s1" "Suc (length s) < length s1"
        using load_Inr[OF l1] g1(2) by (simp_all add: get_long_Inr_iff)
      have "load ?s' ob1 = Inr a1"
        using l1 lt unfolding load_Inr_iff by (simp add: get_float_append get_scalar_append)
      moreover have "get_float ?s' (length s1) = Inr (torch_clamp rgb 0 255)"
        by (simp add: get_float_Inr_iff)
      moreover have "get_long ?s' (Suc (length s)) = Inr pre"
        using g1(2) by (simp add: get_long_Inr_iff nth_append)
      ultimately show ?thesis
        using ap1 True by (simp add: Inr res so g1(1) return_obj_def alloc_def)
    next
      case False
      have "case Some (rgb, pre) of None \<Rightarrow> Some (length s, Suc (length s)) = None
         | Some (rgb, pre) \<Rightarrow> \<exists>r p. Some (length s, Suc (length s)) = Some (r, p) \<and>
                get_float s1 r = Inr rgb \<and> get_long s1 p = Inr pre"
        using g1 by simp
      note ih = Suc.IH[OF l1 ap1 this, of "Suc i"]
      have e1: "for_range e comps labels i (Suc n) a prev =
                  for_range e comps labels (Suc i) n a1 (Some (rgb, pre))"
        using False by (simp add: Inr res)
      have e2: "for_range_obj e comps labels i (Suc n) s ob prev_r =
                  for_range_obj e comps labels (Suc i) n s1 ob1 (Some (length s, Suc (length s)))"
        using False by (simp add: so)
      from ih show ?thesis by (simp only: e1 e2)
    qed
  qed
qed

lemma forward_obj_refines:
  assumes "get_float s images_r = Inr images" and "get_long s labels_r = Inr labels"
    and "load s ob = Inr a" and "alpha_apart ob"
  shows "(case forward e a images labels of
            Inl er \<Rightarrow> \<exists>ob' s'. forward_obj e s ob images_r labels_r = Inl (er, ob', s')
          | Inr ((q, pre, st), a') \<Rightarrow>
              \<exists>q_r pre_r ob' s'.
                forward_obj e s ob images_r labels_r = Inr ((q_r, pre_r, st), ob', s') \<and>
                load s' ob' = Inr a' \<and> alpha_apart ob' \<and>
                get_float s' q_r = Inr q \<and> get_long s' pre_r = Inr pre)"
proof -
  let ?s2 = "s @ [FloatTensor images, LongTensor labels]"
  have lt: "alpha_ref ob < length s" "alpha_interval_ref ob < length s"
    "\<And>k. q_table_refs ob k < length s"
    using load_Inr[OF assms(3)] by simp_all
  have l2: "load ?s2 ob = Inr a"
    using assms(3) lt unfolding load_Inr_iff by (simp add: get_float_append get_scalar_append)
  have st: "steps ob = steps a" using load_Inr(7)[OF assms(3)] by simp
  show ?thesis
  proof (cases "components images")
    case (Inl er)
    then show ?thesis
      by (simp add: forward_def forward_obj_def assms(1,2) alloc_def)
  next
    case (Inr comps)
    have "case None of None \<Rightarrow> (None :: (ref \<times> ref) option) = None
         | Some (rgb, pre) \<Rightarrow> \<exists>r p. (None :: (ref \<times> ref) option) = Some (r, p) \<and>
                get_float ?s2 r = Inr rgb \<and> get_long ?s2 p = Inr pre"
      by simp
    note r = for_range_obj_refines[OF l2 assms(4) this, of e comps labels 0 "nat (steps a)"]
    have e1: "forward e a images labels = for_range e comps labels 0 (nat (steps a)) a None"
      by (simp add: forward_def Inr)
    have e2: "forward_obj e s ob images_r labels_r =
                for_range_obj e comps labels 0 (nat (steps a)) ?s2 ob None"
      by (simp add: forward_obj_def assms(1,2) alloc_def Inr st)
    from r show ?thesis by (simp only: e1 e2)
  qed
qed

lemma InfoDrop_init_obj_refines:
  "(case InfoDrop_init h w st b bs q tg of
      Inl er \<Rightarrow> InfoDrop_init_obj h w st b bs q tg s = Inl er
    | Inr a \<Rightarrow>
        \<exists>ob s'. InfoDrop_init_obj h w st b bs q tg s = Inr (ob, s') \<and>
          load s' ob = Inr a \<and> alpha_apart ob \<and> alpha_ref ob = length s \<and> frame (alpha_ref ob) s s')"
  by (simp add: InfoDrop_init_def InfoDrop_init_obj_def alloc_def load_Inr_iff
      get_scalar_Inr_iff get_float_Inr_iff nth_append alpha_apart_def frame_def)

subsection \<open>The small instance on objects\<close>

lemma toy_init_obj:
  "InfoDrop_init_obj 1 1 2 1 1 10 True (toy_store [1]) = Inr (toy_obj, toy_store_init)"
  by (simp add: InfoDrop_init_obj_def alloc_def toy_obj_def toy_store_init_def toy_store_def
      np_full_def block_n_def scalar_def eval_nat_numeral)

lemma toy_load: "load toy_store_init toy_obj = Inr (toy_attack 2 True)"
  by (simp add: load_Inr_iff get_scalar_Inr_iff get_float_Inr_iff toy_store_init_def toy_store_def
      toy_obj_def toy_attack_def)

lemma toy_forward_obj:
  "map_sum id (\<lambda>(r, ob, s). (r, map (q_table_refs ob) [Y, Cb, Cr], length s, s ! 2))
     (forward_obj toy_env toy_store_init toy_obj 0 1) =
   Inr ((17, 13, Some 1), [14, 15, 16], 18, FloatTensor (scalar (1 / 10 ^ 20)))"
  by (simp add: forward_obj_def get_float_def get_long_def toy_store_init_def toy_store_def
      alloc_def toy_images_def components_def channel_def toy_obj_def
      step_obj_def load_def get_scalar_def scalar_def observe_def rgb_images_def upresult_def
      cat_channels_def plane_of_def torch_max_indices_def argmax_def adv_loss_raises_def
      suc_rate_ge_1_def hits_def toy_env_def rebind_table_def update_table_def
      total_cost_grad_def torch_clamp_def torch_sub_def torch_sign_def torch_neg_def clamp_def
      return_obj_def numeral_2_eq_2 nth_append Let_def)

section \<open>The claims\<close>

text \<open>
  C1. The number of blocks of a table is \<open>ceil(H/B) * ceil(W/B)\<close>. The source computes
  \<open>ceil(H/B) * ceil(H/B)\<close>: for height 16, width 8 and block size 8 the tables get 4
  blocks where the planes have 2.
\<close>

theorem block_count_ignores_width:
  "map_sum id (\<lambda>a. shape (q_tables a Y)) (InfoDrop_init 16 8 40 1 8 10 False) = Inr [1, 4, 8, 8] \<and>
   \<lceil>real_of_int 16 / real_of_int 8\<rceil> * \<lceil>real_of_int 8 / real_of_int 8\<rceil> = (2::int)"
  by (simp add: InfoDrop_init_def shape_np_full block_n_def)





text \<open>
  C4. When the lower bound of \<open>factor_range\<close> is at most the upper one, every element
  of every table lies between them after every update, and so it does in the object a
  returning call leaves, whether the call succeeded or exhausted its steps.
\<close>

theorem tables_within_factor_range:
  assumes "fst (factor_range a) \<le> snd (factor_range a)"
  shows "(\<forall>n>0. \<forall>k. \<forall>x\<in>set (elems (q_tables (state_after e comps labels a n) k)).
            fst (factor_range a) \<le> x \<and> x \<le> snd (factor_range a)) \<and>
         (\<forall>images q pre st a'. components images = Inr comps \<and>
            forward e a images labels = Inr ((q, pre, st), a') \<longrightarrow>
            (\<forall>k. \<forall>x\<in>set (elems (q_tables a' k)).
               fst (factor_range a) \<le> x \<and> x \<le> snd (factor_range a)))"
proof -
  have *: "fst (factor_range a) \<le> x \<and> x \<le> snd (factor_range a)"
    if "0 < n" "x \<in> set (elems (q_tables (state_after e comps labels a n) k))" for n k x
  proof -
    from that(1) obtain m where n: "n = Suc m" by (cases n) auto
    show ?thesis
      using update_range[of "state_after e comps labels a m" x e comps labels k] that(2) assms
      by (simp add: n state_after_Suc')
  qed
  have 1: "\<forall>n>0. \<forall>k. \<forall>x\<in>set (elems (q_tables (state_after e comps labels a n) k)).
            fst (factor_range a) \<le> x \<and> x \<le> snd (factor_range a)"
    using * by blast
  have 2: "\<forall>k. \<forall>x\<in>set (elems (q_tables a' k)).
               fst (factor_range a) \<le> x \<and> x \<le> snd (factor_range a)"
    if "components images = Inr comps \<and> forward e a images labels = Inr ((q, pre, st), a')"
    for images q pre st a'
  proof -
    from that have c: "components images = Inr comps"
      and f: "forward e a images labels = Inr ((q, pre, st), a')" by simp_all
    let ?n = "case st of Some i \<Rightarrow> Suc i | None \<Rightarrow> nat (steps a)"
    have "a' = state_after e comps labels a ?n" "0 < ?n"
      using forward_final_state[OF c f] by simp_all
    then show ?thesis using 1 by metis
  qed
  from 1 2 show ?thesis by blast
qed

theorem tables_within_factor_range_witness:
  "fst (factor_range (toy_attack 2 True)) \<le> snd (factor_range (toy_attack 2 True)) \<and>
   factor_range (toy_attack 2 True) = (5, 10) \<and>
   elems (q_tables (state_after toy_env toy_comps [1] (toy_attack 2 True) 2) Cr) = [8] \<and>
   fst (factor_range (toy_attack 2 True)) \<le> 8 \<and> 8 \<le> snd (factor_range (toy_attack 2 True))"
proof -
  have fr: "fst (factor_range (toy_attack 2 True)) \<le> snd (factor_range (toy_attack 2 True))"
    by (simp add: toy_attack_def)
  have el: "elems (q_tables (state_after toy_env toy_comps [1] (toy_attack 2 True) 2) Cr) = [8]"
    by (simp add: toy_state_after toy_tables_targeted)
  note th = tables_within_factor_range[OF fr, where e = toy_env and comps = toy_comps
      and labels = "[1]", THEN conjunct1, rule_format, of 2 _ Cr, OF zero_less_numeral]
  have "\<forall>x\<in>set (elems (q_tables (state_after toy_env toy_comps [1] (toy_attack 2 True) 2) Cr)).
          fst (factor_range (toy_attack 2 True)) \<le> x \<and> x \<le> snd (factor_range (toy_attack 2 True))"
    using th by blast
  then have "fst (factor_range (toy_attack 2 True)) \<le> 8 \<and> 8 \<le> snd (factor_range (toy_attack 2 True))"
    by (simp add: el)
  then show ?thesis using fr el by (simp add: toy_attack_def)
qed

text \<open>
  C5. A step replaces every element \<open>q\<close> of a table by
  \<open>clamp(q - sign(g), min_factor, max_factor)\<close>, where \<open>g\<close> is the element of the gradient
  of the cost at the same place: the step is -1, 0 or 1 whatever the size of \<open>g\<close>.
\<close>

theorem sign_gradient_step:
  assumes "step e comps labels a = Inr (rgb, pre, suc, a')"
    and "g = total_cost_grad e a comps labels k"
    and "length (elems g) = length (elems (q_tables a k))"
  shows "shape (q_tables a' k) = shape (q_tables a k) \<and>
         length (elems (q_tables a' k)) = length (elems (q_tables a k)) \<and>
         (\<forall>i<length (elems (q_tables a k)).
            elems (q_tables a' k) ! i =
              clamp (elems (q_tables a k) ! i - sgn (elems g ! i))
                    (fst (factor_range a)) (snd (factor_range a)) \<and>
            sgn (elems g ! i) \<in> {- 1, 0, 1})"
proof -
  have a': "a' = update e comps labels a" using assms(1) by (rule step_update)
  have q: "q_tables a' k = update_table (factor_range a) (q_tables a k) g"
    by (simp add: a' update_def assms(2))
  have sg: "sgn x \<in> {- 1, 0, 1}" for x :: real
    by (simp add: sgn_if)
  have "\<forall>i<length (elems (q_tables a k)).
            elems (q_tables a' k) ! i =
              clamp (elems (q_tables a k) ! i - sgn (elems g ! i))
                    (fst (factor_range a)) (snd (factor_range a)) \<and>
            sgn (elems g ! i) \<in> {- 1, 0, 1}"
  proof (intro allI impI conjI)
    fix i assume "i < length (elems (q_tables a k))"
    then show "elems (q_tables a' k) ! i =
              clamp (elems (q_tables a k) ! i - sgn (elems g ! i))
                    (fst (factor_range a)) (snd (factor_range a))"
      unfolding q by (rule update_table_nth[OF assms(3)])
  next
    fix i show "sgn (elems g ! i) \<in> {- 1, 0, 1}" by (rule sg)
  qed
  moreover have "shape (q_tables a' k) = shape (q_tables a k)"
    unfolding q by (rule update_table_shape)
  moreover have "length (elems (q_tables a' k)) = length (elems (q_tables a k))"
    unfolding q by (rule update_table_length[OF assms(3)])
  ultimately show ?thesis by blast
qed

theorem sign_gradient_step_witness:
  "step toy_env toy_comps [1] (toy_attack 2 True) =
     Inr (\<lparr>shape = [1, 3, 1, 1], elems = [310, 5, 17]\<rparr>, [0], False,
          update toy_env toy_comps [1] (toy_attack 2 True)) \<and>
   elems (total_cost_grad toy_env (toy_attack 2 True) toy_comps [1] Y) = [3] \<and>
   elems (q_tables (toy_attack 2 True) Y) = [10] \<and>
   elems (q_tables (update toy_env toy_comps [1] (toy_attack 2 True)) Y) ! 0 = clamp (10 - sgn 3) 5 10 \<and>
   clamp (10 - sgn 3) 5 10 = 9"
proof -
  have len: "length (elems (total_cost_grad toy_env (toy_attack 2 True) toy_comps [1] Y)) =
             length (elems (q_tables (toy_attack 2 True) Y))"
    by (simp add: toy_grad) (simp add: toy_attack_def)
  from sign_gradient_step[OF toy_step0 refl len]
  have "\<forall>i<length (elems (q_tables (toy_attack 2 True) Y)).
          elems (q_tables (update toy_env toy_comps [1] (toy_attack 2 True)) Y) ! i =
            clamp (elems (q_tables (toy_attack 2 True) Y) ! i -
                   sgn (elems (total_cost_grad toy_env (toy_attack 2 True) toy_comps [1] Y) ! i))
              (fst (factor_range (toy_attack 2 True))) (snd (factor_range (toy_attack 2 True)))"
    by blast
  then have "elems (q_tables (update toy_env toy_comps [1] (toy_attack 2 True)) Y) ! 0 =
            clamp (10 - sgn 3) 5 10"
    by (simp add: toy_grad) (simp add: toy_attack_def)
  then show ?thesis using toy_step0 by (simp add: toy_grad) (simp add: toy_attack_def clamp_def)
qed



text \<open>
  C7. Every element of the batch a call returns lies in \<open>[0, 255]\<close>, on both ways out
  of the loop.
\<close>

theorem returned_pixels_clamped:
  assumes "forward e a images labels = Inr ((q, pre, st), a')"
  shows "\<forall>x\<in>set (elems q). 0 \<le> x \<and> x \<le> 255"
proof -
  from assms obtain comps where
    "for_range e comps labels 0 (nat (steps a)) a None = Inr ((q, pre, st), a')"
    by (auto simp: forward_def split: sum.splits)
  from for_range_clamped[OF this] obtain rgb where "q = torch_clamp rgb 0 255" ..
  then show ?thesis using torch_clamp_range[of 0 255] by auto
qed

theorem returned_pixels_clamped_witness:
  "elems toy_images = [300, - 5, 7] \<and>
   forward toy_env (toy_attack 2 True) toy_images [1] =
     Inr ((\<lparr>shape = [1, 3, 1, 1], elems = [255, 4, 16]\<rparr>, [1], Some 1),
          update toy_env toy_comps [1] (update toy_env toy_comps [1] (toy_attack 2 True))) \<and>
   list_all (\<lambda>x. 0 \<le> x \<and> x \<le> 255)
     (elems \<lparr>shape = [1, 3, 1, 1], elems = [255, 4, 16 :: real]\<rparr>)"
proof -
  from returned_pixels_clamped[OF toy_forward_targeted]
  have "list_all (\<lambda>x. 0 \<le> x \<and> x \<le> 255)
     (elems \<lparr>shape = [1, 3, 1, 1], elems = [255, 4, 16 :: real]\<rparr>)"
    by (simp only: list_all_iff)
  then show ?thesis using toy_forward_targeted by (simp add: toy_images_def)
qed




text \<open>
  C9. Whether it returns or raises, a call of \<open>forward\<close> leaves every tensor that
  existed before the call as it was, but for the alpha tensor, which line 115 changes in
  place: the caller's batch and labels, and any tensor the classifier holds, are among
  those. Of the attributes of the object only the bindings of the three tables change.
  The tensors a call returns, and the tensors the tables are bound to afterwards, did not
  exist before the call. (The collaborators, the classifier among them, are functions of
  values in this model: that they write nothing is assumed, not proved.)
\<close>

theorem forward_mutates_only_tables_and_alpha:
  assumes "final_state (forward_obj e s ob images_r labels_r) = (ob', s')"
  shows "length s \<le> length s' \<and>
         (\<forall>r<length s. r \<noteq> alpha_ref ob \<longrightarrow> s' ! r = s ! r) \<and>
         (images_r < length s \<longrightarrow> s' ! images_r = s ! images_r) \<and>
         (labels_r < length s \<longrightarrow> s' ! labels_r = s ! labels_r) \<and>
         ob' = ob\<lparr>q_table_refs := q_table_refs ob'\<rparr> \<and>
         (\<forall>q_r pre_r st. forward_obj e s ob images_r labels_r = Inr ((q_r, pre_r, st), ob', s') \<longrightarrow>
            length s \<le> q_r \<and> q_r < length s' \<and> length s \<le> pre_r \<and> pre_r < length s' \<and>
            (\<forall>k. length s \<le> q_table_refs ob' k \<and> q_table_refs ob' k < length s'))"
proof -
  note f = forward_obj_frame[OF assms]
  from f(1) have "length s \<le> length s'" "\<forall>r<length s. r \<noteq> alpha_ref ob \<longrightarrow> s' ! r = s ! r"
    by (simp_all add: frame_def)
  with f(2,3,4) forward_obj_returns_new[of e s ob images_r labels_r _ _ _ ob' s']
  show ?thesis by blast
qed

theorem forward_mutates_only_tables_and_alpha_witness:
  "\<exists>ob' s'. forward_obj toy_env toy_store_init toy_obj 0 1 = Inr ((17, 13, Some 1), ob', s') \<and>
      length toy_store_init = 5 \<and> alpha_ref toy_obj = 2 \<and>
      s' ! 0 = toy_store_init ! 0 \<and> s' ! 1 = toy_store_init ! 1 \<and>
      s' ! 3 = toy_store_init ! 3 \<and> s' ! 4 = toy_store_init ! 4 \<and>
      toy_store_init ! 2 = FloatTensor (scalar (1 / 10)) \<and>
      s' ! 2 = FloatTensor (scalar (1 / 10 ^ 20)) \<and>
      ob' = toy_obj\<lparr>q_table_refs := q_table_refs ob'\<rparr> \<and>
      map (q_table_refs ob') [Y, Cb, Cr] = [14, 15, 16] \<and> length s' = 18"
proof -
  from toy_forward_obj obtain ob' s' where
    fw: "forward_obj toy_env toy_store_init toy_obj 0 1 = Inr ((17, 13, Some 1), ob', s')"
    and rest: "map (q_table_refs ob') [Y, Cb, Cr] = [14, 15, 16]" "length s' = 18"
      "s' ! 2 = FloatTensor (scalar (1 / 10 ^ 20))"
    by (cases "forward_obj toy_env toy_store_init toy_obj 0 1") auto
  have fin: "final_state (forward_obj toy_env toy_store_init toy_obj 0 1) = (ob', s')"
    unfolding fw by (simp add: final_state_def)
  have len: "length toy_store_init = 5" and al: "alpha_ref toy_obj = 2"
    and a0: "toy_store_init ! 2 = FloatTensor (scalar (1 / 10))"
    by (simp_all add: toy_store_init_def toy_store_def toy_obj_def)
  note th = forward_mutates_only_tables_and_alpha[OF fin]
  from th have same: "\<forall>r<length toy_store_init. r \<noteq> alpha_ref toy_obj \<longrightarrow> s' ! r = toy_store_init ! r"
    and ob: "ob' = toy_obj\<lparr>q_table_refs := q_table_refs ob'\<rparr>" by blast+
  from same have "s' ! 0 = toy_store_init ! 0" "s' ! 1 = toy_store_init ! 1"
    "s' ! 3 = toy_store_init ! 3" "s' ! 4 = toy_store_init ! 4"
    by (simp_all add: len al)
  with fw len al a0 rest ob show ?thesis
    apply -
    apply (rule exI[of _ ob'], rule exI[of _ s'])
    apply (intro conjI; assumption)
    done
qed

text \<open>
  C10. A call that returns the step \<open>i\<close> leaves the object after \<open>i + 1\<close> updates:
  alpha has been incremented \<open>i + 1\<close> times and the tables are the update of those
  step \<open>i\<close> started with; the batch and the predictions it returns were computed
  from the object as it was after \<open>i\<close> updates, and so was the test that stopped the
  loop.
\<close>

theorem update_precedes_stop_check:
  assumes "components images = Inr comps"
    and "forward e a images labels = Inr ((q, pre, Some i), a')"
  shows "a' = (update e comps labels ^^ (i + 1)) a \<and>
         alpha a' = alpha a + real (i + 1) * alpha_interval a \<and>
         (\<forall>k. q_tables a' k =
                update_table (factor_range a) (q_tables ((update e comps labels ^^ i) a) k)
                  (total_cost_grad e ((update e comps labels ^^ i) a) comps labels k)) \<and>
         (\<exists>rgb. rgb_images e ((update e comps labels ^^ i) a) comps = Inr rgb \<and>
                torch_max_indices (model e rgb) = Inr pre \<and>
                suc_rate_ge_1 (hits (targeted a) pre labels) (batch_size a) \<and>
                q = torch_clamp rgb 0 255)"
proof -
  let ?s = "state_after e comps labels a"
  from assms have run: "for_range e comps labels 0 (nat (steps a)) a None = Inr ((q, pre, Some i), a')"
    by (simp add: forward_comps)
  from for_range_Some[OF run] obtain rgb where
    st: "step e comps labels (?s i) = Inr (rgb, pre, True, a')" and q: "q = torch_clamp rgb 0 255"
    by auto
  have a': "a' = update e comps labels (?s i)" using st by (rule step_update)
  then have 1: "a' = (update e comps labels ^^ (i + 1)) a" by (simp add: state_after_def)
  have 2: "alpha a' = alpha a + real (i + 1) * alpha_interval a"
    using alpha_state_after[of e comps labels a "Suc i"] a' by (simp add: state_after_Suc')
  have 3: "q_tables a' k =
                update_table (factor_range a) (q_tables (?s i) k)
                  (total_cost_grad e (?s i) comps labels k)" for k
    by (simp add: a' update_def)
  have 4: "rgb_images e (?s i) comps = Inr rgb \<and>
                torch_max_indices (model e rgb) = Inr pre \<and>
                suc_rate_ge_1 (hits (targeted a) pre labels) (batch_size a) \<and>
                q = torch_clamp rgb 0 255"
    using st q by (simp add: step_Inr_iff)
  from 1 2 3 4 show ?thesis unfolding state_after_def by blast
qed

theorem update_precedes_stop_check_witness:
  "components toy_images = Inr toy_comps \<and>
   forward toy_env (toy_attack 2 True) toy_images [1] =
     Inr ((\<lparr>shape = [1, 3, 1, 1], elems = [255, 4, 16]\<rparr>, [1], Some 1),
          update toy_env toy_comps [1] (update toy_env toy_comps [1] (toy_attack 2 True))) \<and>
   update toy_env toy_comps [1] (update toy_env toy_comps [1] (toy_attack 2 True)) =
     (update toy_env toy_comps [1] ^^ (1 + 1)) (toy_attack 2 True) \<and>
   alpha (update toy_env toy_comps [1] (update toy_env toy_comps [1] (toy_attack 2 True))) =
     alpha (toy_attack 2 True) + real (1 + 1) * alpha_interval (toy_attack 2 True) \<and>
   elems (q_tables (update toy_env toy_comps [1] (toy_attack 2 True)) Cr) = [9] \<and>
   elems (q_tables (update toy_env toy_comps [1] (update toy_env toy_comps [1] (toy_attack 2 True))) Cr) = [8] \<and>
   rgb_images toy_env (update toy_env toy_comps [1] (toy_attack 2 True)) toy_comps =
     Inr \<lparr>shape = [1, 3, 1, 1], elems = [309, 4, 16]\<rparr>"
proof -
  note th = update_precedes_stop_check[OF toy_components toy_forward_targeted]
  note c1 = th[THEN conjunct1]
  note c2 = th[THEN conjunct2, THEN conjunct1]
  have c3: "rgb_images toy_env (update toy_env toy_comps [1] (toy_attack 2 True)) toy_comps =
     Inr \<lparr>shape = [1, 3, 1, 1], elems = [309, 4, 16]\<rparr>"
    using toy_step1 by (simp only: step_Inr_iff)
  from toy_components toy_forward_targeted c1 c2 toy_tables_targeted(2)[of Cr]
    toy_tables_targeted(1)[of Cr] c3
  show ?thesis by (intro conjI)
qed

end
